theory Spec2Isabelle
  imports Complex_Main "HOL-Library.Log_Nat"
begin

section \<open>Python values\<close>

text \<open>
  The evaluator is Python: metric results are dictionaries of arbitrary values and the
  cells of a result table are whatever those dictionaries held, with a floating-point
  NaN where a row has no value for a column.  The model keeps the dynamic typing: a
  value is one of the shapes below.

  A float is a finite number, an infinity or NaN.  Every finite double is a real
  number and Python compares doubles (and an int with a double) by their exact
  values, so finite floats are embedded in \<open>real\<close>; every comparison with NaN is false.
\<close>

datatype pyfloat = Finite real | PosInf | NegInf | NaN

fun float_lt :: "pyfloat \<Rightarrow> pyfloat \<Rightarrow> bool" where
  "float_lt (Finite x) (Finite y) = (x < y)"
| "float_lt (Finite x) PosInf = True"
| "float_lt NegInf (Finite y) = True"
| "float_lt NegInf PosInf = True"
| "float_lt _ _ = False"

definition float_le :: "pyfloat \<Rightarrow> pyfloat \<Rightarrow> bool" where
  "float_le a b = (a \<noteq> NaN \<and> b \<noteq> NaN \<and> (float_lt a b \<or> a = b))"

definition float_gt :: "pyfloat \<Rightarrow> pyfloat \<Rightarrow> bool" where
  "float_gt a b = float_lt b a"

definition float_ge :: "pyfloat \<Rightarrow> pyfloat \<Rightarrow> bool" where
  "float_ge a b = float_le b a"

datatype pyval =
    PNone
  | PBool bool
  | PInt int
  | PFloat pyfloat
  | PStr string
  | PList "string list"

text \<open>Python's truth test (\<^verbatim>\<open>if x\<close>, \<^verbatim>\<open>not x\<close>): NaN and the infinities are true.\<close>

fun truthy :: "pyval \<Rightarrow> bool" where
  "truthy PNone = False"
| "truthy (PBool b) = b"
| "truthy (PInt i) = (i \<noteq> 0)"
| "truthy (PFloat (Finite x)) = (x \<noteq> 0)"
| "truthy (PFloat _) = True"
| "truthy (PStr s) = (s \<noteq> [])"
| "truthy (PList xs) = (xs \<noteq> [])"

text \<open>
  The numeric reading of a value in an ordering comparison with a float: \<^verbatim>\<open>bool\<close> is
  a subclass of \<^verbatim>\<open>int\<close>; \<^verbatim>\<open>None\<close>, strings and lists are not ordered against a float.
\<close>

fun as_float :: "pyval \<Rightarrow> pyfloat option" where
  "as_float (PBool b) = Some (Finite (if b then 1 else 0))"
| "as_float (PInt i) = Some (Finite (real_of_int i))"
| "as_float (PFloat x) = Some x"
| "as_float _ = None"

datatype error = TypeError | KeyError | ZeroDivisionError | OverflowError

definition py_lt :: "pyval \<Rightarrow> pyfloat \<Rightarrow> error + bool" where
  "py_lt v y = (case as_float v of None \<Rightarrow> Inl TypeError | Some x \<Rightarrow> Inr (float_lt x y))"

definition py_ge :: "pyval \<Rightarrow> pyfloat \<Rightarrow> error + bool" where
  "py_ge v y = (case as_float v of None \<Rightarrow> Inl TypeError | Some x \<Rightarrow> Inr (float_ge x y))"

subsection \<open>True division of two ints\<close>

text \<open>
  \<^verbatim>\<open>a / b\<close> on two ints raises \<^verbatim>\<open>ZeroDivisionError\<close> for a zero divisor and otherwise gives
  the double nearest to the exact quotient, a tie going to the double with the even
  significand; it raises \<^verbatim>\<open>OverflowError\<close> when that rounding reaches \<open>2 ^ 1024\<close>, one step
  beyond the largest double.  A finite double is an integer of magnitude below
  \<open>2 ^ 53\<close> times a power of two with exponent from \<open>- 1074\<close> to \<open>971\<close>.

  The rounding: for a positive exact quotient \<open>q\<close> with \<open>2 ^ k \<le> q < 2 ^ (k + 1)\<close>, the
  doubles around \<open>q\<close> are the multiples of \<open>2 ^ e\<close> for \<open>e = k - 52\<close>, or for \<open>e = - 1074\<close> when
  \<open>q\<close> is in the subnormal range; \<open>q\<close> is rounded to the nearest multiple.
\<close>

definition round_half_even :: "real \<Rightarrow> int" where
  "round_half_even x =
     (let f = \<lfloor>x\<rfloor>; r = x - real_of_int f in
      if r < 1/2 then f
      else if r > 1/2 then f + 1
      else if even f then f else f + 1)"

text \<open>The \<open>k\<close> with \<open>2 ^ k \<le> a / b < 2 ^ (k + 1)\<close>, for positive \<open>a\<close> and \<open>b\<close>, from their bit lengths.\<close>

definition floor_log2 :: "int \<Rightarrow> int \<Rightarrow> int" where
  "floor_log2 a b =
     (let k = bitlen a - bitlen b in
      if real_of_int b * 2 powi k \<le> real_of_int a then k else k - 1)"

definition py_truediv :: "int \<Rightarrow> int \<Rightarrow> error + pyfloat" where
  "py_truediv a b =
     (if b = 0 then Inl ZeroDivisionError
      else if a = 0 then Inr (Finite 0)
      else
        (let q = \<bar>real_of_int a / real_of_int b\<bar>;
             e = max (floor_log2 \<bar>a\<bar> \<bar>b\<bar> - 52) (- 1074);
             d = real_of_int (round_half_even (q / 2 powi e)) * 2 powi e
         in if 2 ^ 1024 \<le> d then Inl OverflowError
            else Inr (Finite (if (a < 0) = (b < 0) then d else - d))))"

section \<open>The traffic-light scorer (scoring.py)\<close>

record TrafficLightScorer =
  rouge_thresholds :: "pyfloat \<times> pyfloat"
  other_thresholds :: "pyfloat \<times> pyfloat"
  missing_eval_threshold :: pyfloat

text \<open>
  The constructor's defaults; the constructor validates nothing.  The decimal literals
  stand for the doubles nearest to them.
\<close>

definition default_scorer :: TrafficLightScorer where
  "default_scorer =
     \<lparr>rouge_thresholds = (Finite (4/10), Finite (5/10)),
      other_thresholds = (Finite (4/10), Finite (7/10)),
      missing_eval_threshold = Finite (5/100)\<rparr>"

subsection \<open>score_to_status\<close>

definition score_to_status :: "TrafficLightScorer \<Rightarrow> pyval \<Rightarrow> string \<Rightarrow> error + string" where
  "score_to_status self score metric_name =
     (if metric_name = ''toxicity'' then
        (case py_ge score (Finite 1) of
           Inl e \<Rightarrow> Inl e
         | Inr b \<Rightarrow> if b then Inr ''green'' else Inr ''red'')
      else
        (let (lower, upper) =
               (if metric_name = ''rouge'' then rouge_thresholds self
                else other_thresholds self)
         in case py_lt score lower of
              Inl e \<Rightarrow> Inl e
            | Inr b \<Rightarrow>
                if b then Inr ''red''
                else (case py_lt score upper of
                        Inl e \<Rightarrow> Inl e
                      | Inr b' \<Rightarrow> if b' then Inr ''yellow'' else Inr ''green'')))"

subsection \<open>compute_overall_status\<close>

text \<open>
  The division is evaluated only after \<^verbatim>\<open>total_evals > 0\<close> has been found true; an
  exception of the division leaves the function.
\<close>

definition compute_overall_status ::
  "TrafficLightScorer \<Rightarrow> pyval list \<Rightarrow> int \<Rightarrow> int \<Rightarrow> error + string" where
  "compute_overall_status self statuses missing_evals total_evals =
     (if statuses = [] then Inr ''red''
      else
        (case (if total_evals > 0
               then (case py_truediv missing_evals total_evals of
                       Inl e \<Rightarrow> Inl e
                     | Inr ratio \<Rightarrow> Inr (float_gt ratio (missing_eval_threshold self)))
               else Inr False)
         of Inl e \<Rightarrow> Inl e
          | Inr too_many_missing \<Rightarrow>
              if too_many_missing
              then (if PStr ''red'' \<in> set statuses then Inr ''red'' else Inr ''yellow'')
              else if PStr ''red'' \<in> set statuses then Inr ''red''
              else if PStr ''yellow'' \<in> set statuses then Inr ''yellow''
              else Inr ''green''))"

section \<open>Strings\<close>

text \<open>
  Strings are modelled over ASCII.  \<^verbatim>\<open>str.strip()\<close> removes the leading and trailing
  whitespace characters: tab, newline, vertical tab, form feed, carriage return, the
  four separators 0x1C to 0x1F and the space.
\<close>

definition isspace :: "char \<Rightarrow> bool" where
  "isspace c = (of_char c \<in> {9, 10, 11, 12, 13, 28, 29, 30, 31, 32 :: nat})"

definition strip :: "string \<Rightarrow> string" where
  "strip s = rev (dropWhile isspace (rev (dropWhile isspace s)))"

definition endswith :: "string \<Rightarrow> string \<Rightarrow> bool" where
  "endswith s suffix =
     (length suffix \<le> length s \<and> drop (length s - length suffix) s = suffix)"

text \<open>
  \<^verbatim>\<open>s.replace(old, new)\<close> replaces every occurrence of \<open>old\<close>, scanning from the left
  and continuing after each replaced occurrence; with an empty \<open>old\<close> it puts \<open>new\<close>
  before every character and at the end.
\<close>

fun replace :: "string \<Rightarrow> string \<Rightarrow> string \<Rightarrow> string" where
  "replace [] old new = (if old = [] then new else [])"
| "replace (c # cs) old new =
     (case old of
        [] \<Rightarrow> new @ c # replace cs old new
      | _ # os \<Rightarrow>
          if take (length old) (c # cs) = old
          then new @ replace (drop (length os) cs) old new
          else c # replace cs old new)"

section \<open>Rows and tables\<close>

text \<open>
  A dictionary, and a row of a pandas table, is a list of (label, value) pairs in
  insertion order; \<open>map_of\<close> reads the value of a label.  Assigning to a label that is
  present replaces its value in place, assigning to a new label appends it: this is
  both \<^verbatim>\<open>d[k] = v\<close> on a dictionary and \<^verbatim>\<open>df[col] = ...\<close> on a table.

  A table is the list of its rows, all over the same column labels.  Every column that
  \<^verbatim>\<open>score_results\<close> writes is computed cell by cell from the same row
  (\<^verbatim>\<open>Series.apply\<close>, and \<^verbatim>\<open>DataFrame.apply\<close> with \<^verbatim>\<open>axis=1\<close>), so the passes over columns
  are written here as passes over each row; an exception in any cell aborts the call.
  The function works on a copy, which the model gets for free.  What pandas does with
  a table that has no rows at all is not modelled: the list of rows is then empty.
\<close>

type_synonym row = "(string \<times> pyval) list"

type_synonym table = "row list"

primrec setitem :: "string \<Rightarrow> pyval \<Rightarrow> row \<Rightarrow> row" where
  "setitem k v [] = [(k, v)]"
| "setitem k v (p # ps) = (if fst p = k then (k, v) # ps else p # setitem k v ps)"

definition getitem :: "row \<Rightarrow> string \<Rightarrow> error + pyval" where
  "getitem r k = (case map_of r k of None \<Rightarrow> Inl KeyError | Some v \<Rightarrow> Inr v)"

text \<open>Mapping a function that may raise over a list: the first exception ends it.\<close>

fun map_raising :: "('a \<Rightarrow> error + 'b) \<Rightarrow> 'a list \<Rightarrow> error + 'b list" where
  "map_raising f (x # xs) =
     (case f x of
        Inl e \<Rightarrow> Inl e
      | Inr y \<Rightarrow>
          (case map_raising f xs of Inl e \<Rightarrow> Inl e | Inr ys \<Rightarrow> Inr (y # ys)))"
| "map_raising f [] = Inr []"

subsection \<open>compute_row_status\<close>

definition compute_row_status :: "TrafficLightScorer \<Rightarrow> row \<Rightarrow> error + string" where
  "compute_row_status self r =
     (let status_cols = filter (\<lambda>col. endswith col ''_status'') (map fst r) in
      case map_raising (getitem r) status_cols of
        Inl e \<Rightarrow> Inl e
      | Inr statuses \<Rightarrow>
          if (case map_of r ''toxicity_is_toxic'' of None \<Rightarrow> False | Some x \<Rightarrow> truthy x)
          then Inr ''red''
          else compute_overall_status self statuses 0 0)"

subsection \<open>score_results\<close>

text \<open>
  One turn of the loop over the columns: a column whose label ends in \<^verbatim>\<open>_score\<close> gets
  a status column, named by deleting every \<^verbatim>\<open>_score\<close> from the label.  The loop runs
  over the labels that the table had when the loop started.
\<close>

definition score_column :: "TrafficLightScorer \<Rightarrow> string \<Rightarrow> row \<Rightarrow> error + row" where
  "score_column self col df =
     (if endswith col ''_score'' then
        (let metric_name = replace col ''_score'' [];
             status_col = metric_name @ ''_status''
         in case getitem df col of
              Inl e \<Rightarrow> Inl e
            | Inr x \<Rightarrow>
                (case score_to_status self x metric_name of
                   Inl e \<Rightarrow> Inl e
                 | Inr s \<Rightarrow> Inr (setitem status_col (PStr s) df)))
      else Inr df)"

fun score_columns :: "TrafficLightScorer \<Rightarrow> string list \<Rightarrow> row \<Rightarrow> error + row" where
  "score_columns self [] df = Inr df"
| "score_columns self (col # cols) df =
     (case score_column self col df of
        Inl e \<Rightarrow> Inl e
      | Inr df' \<Rightarrow> score_columns self cols df')"

definition toxicity_column :: "row \<Rightarrow> row" where
  "toxicity_column df =
     (case map_of df ''toxicity_is_toxic'' of
        None \<Rightarrow> df
      | Some x \<Rightarrow> setitem ''toxicity_status'' (PStr (if truthy x then ''red'' else ''green'')) df)"

definition score_row :: "TrafficLightScorer \<Rightarrow> row \<Rightarrow> error + row" where
  "score_row self r =
     (case score_columns self (map fst r) r of
        Inl e \<Rightarrow> Inl e
      | Inr df \<Rightarrow>
          (let df2 = toxicity_column df in
           case compute_row_status self df2 of
             Inl e \<Rightarrow> Inl e
           | Inr s \<Rightarrow> Inr (setitem ''overall_status'' (PStr s) df2)))"

definition score_results :: "TrafficLightScorer \<Rightarrow> table \<Rightarrow> error + table" where
  "score_results self results_df = map_raising (score_row self) results_df"

section \<open>The metric contract (metrics/base.py)\<close>

text \<open>
  A call of a metric, or of the external evaluator behind it, either returns a
  dictionary or raises an exception.  All that the callers read of an exception is
  its message \<^verbatim>\<open>str(e)\<close>, so the outcome of a call is \<open>Inl\<close> of the message or \<open>Inr\<close> of
  the dictionary.  The exceptions are those of class \<^verbatim>\<open>Exception\<close>, which is what the
  handlers of the metrics and of the pipeline catch; an interrupt or an interpreter
  exit is not a failure of a metric and is not modelled.  The arguments are arbitrary
  Python values: the pipeline passes the cells of the input table, and an absent
  reference is \<^verbatim>\<open>None\<close>.
\<close>

fun is_str :: "pyval \<Rightarrow> bool" where
  "is_str (PStr s) = True"
| "is_str _ = False"

fun type_name :: "pyval \<Rightarrow> string" where
  "type_name PNone = ''NoneType''"
| "type_name (PBool b) = ''bool''"
| "type_name (PInt i) = ''int''"
| "type_name (PFloat x) = ''float''"
| "type_name (PStr s) = ''str''"
| "type_name (PList xs) = ''list''"

definition validate_inputs :: "pyval \<Rightarrow> pyval \<Rightarrow> pyval \<Rightarrow> string + unit" where
  "validate_inputs question response reference =
     (if (case question of PStr q \<Rightarrow> strip q = [] | _ \<Rightarrow> True)
      then Inl ''Question must be a non-empty string''
      else if \<not> is_str response
      then Inl ''Response must be a string''
      else if reference \<noteq> PNone \<and> \<not> is_str reference
      then Inl ''Reference must be a string or None''
      else Inr ())"

text \<open>
  The test \<^verbatim>\<open>not response.strip()\<close>; on a value that is not a string the attribute
  lookup raises (after a successful validation this cannot happen).
\<close>

definition not_strip :: "pyval \<Rightarrow> string + bool" where
  "not_strip response =
     (case response of
        PStr s \<Rightarrow> Inr (strip s = [])
      | _ \<Rightarrow> Inl ([CHR 0x27] @ type_name response @ [CHR 0x27] @
                  '' object has no attribute '' @ [CHR 0x27] @ ''strip'' @ [CHR 0x27]))"

text \<open>
  The name a metric gets from its constructor: the given name unless it is empty or
  absent, else the lower-cased class name without \<^verbatim>\<open>metric\<close>.
\<close>

definition default_name :: "string option \<Rightarrow> string \<Rightarrow> string" where
  "default_name given lowered_class_name =
     (case given of
        None \<Rightarrow> replace lowered_class_name ''metric'' []
      | Some n \<Rightarrow> if n = [] then replace lowered_class_name ''metric'' [] else n)"

section \<open>The four metrics\<close>

text \<open>
  The external collaborator of a metric (the DSPy program of the three language-model
  metrics; for the overlap metric the body of its \<^verbatim>\<open>try\<close> block, that is the
  whitespace normalisation, the ROUGE library and the formatting of the averaged F1
  scores) is a parameter: a function from the arguments of the call to its outcome.
  Each \<^verbatim>\<open>evaluate\<close> returns, with its own outcome, the list of the calls it made to the
  collaborator, so that "not invoked" is the empty list.
\<close>

type_synonym program = "pyval list \<Rightarrow> string + row"

type_synonym traced = "pyval list list \<times> (string + row)"

definition relevancy_evaluate :: "program \<Rightarrow> pyval \<Rightarrow> pyval \<Rightarrow> pyval \<Rightarrow> traced" where
  "relevancy_evaluate program question response reference =
     (case validate_inputs question response PNone of
        Inl e \<Rightarrow> ([], Inl e)
      | Inr _ \<Rightarrow>
          (case not_strip response of
             Inl e \<Rightarrow> ([], Inl e)
           | Inr blank \<Rightarrow>
               if blank
               then ([], Inr [(''score'', PFloat (Finite 0)),
                              (''explanation'', PStr ''Empty response'')])
               else ([[question, response]],
                     case program [question, response] of
                       Inr result \<Rightarrow> Inr result
                     | Inl e \<Rightarrow>
                         Inr [(''score'', PFloat (Finite 0)),
                              (''explanation'', PStr (''Error evaluating relevancy: '' @ e))])))"

definition correctness_evaluate :: "program \<Rightarrow> pyval \<Rightarrow> pyval \<Rightarrow> pyval \<Rightarrow> traced" where
  "correctness_evaluate program question response reference =
     (case validate_inputs question response reference of
        Inl e \<Rightarrow> ([], Inl e)
      | Inr _ \<Rightarrow>
          if \<not> truthy reference
          then ([], Inr [(''score'', PFloat (Finite 0)),
                         (''explanation'',
                          PStr ''Cannot evaluate correctness without a reference answer'')])
          else
            (case not_strip response of
               Inl e \<Rightarrow> ([], Inl e)
             | Inr blank \<Rightarrow>
                 if blank
                 then ([], Inr [(''score'', PFloat (Finite 0)),
                                (''explanation'', PStr ''Empty response'')])
                 else ([[question, response, reference]],
                       case program [question, response, reference] of
                         Inr result \<Rightarrow> Inr result
                       | Inl e \<Rightarrow>
                           Inr [(''score'', PFloat (Finite 0)),
                                (''explanation'',
                                 PStr (''Error evaluating correctness: '' @ e))])))"

definition rouge_evaluate :: "program \<Rightarrow> pyval \<Rightarrow> pyval \<Rightarrow> pyval \<Rightarrow> traced" where
  "rouge_evaluate scorer question response reference =
     (case validate_inputs question response reference of
        Inl e \<Rightarrow> ([], Inl e)
      | Inr _ \<Rightarrow>
          if \<not> truthy reference
          then ([], Inr [(''score'', PFloat (Finite 0)),
                         (''explanation'',
                          PStr ''Cannot calculate ROUGE score without a reference answer'')])
          else
            (case not_strip response of
               Inl e \<Rightarrow> ([], Inl e)
             | Inr blank \<Rightarrow>
                 if blank
                 then ([], Inr [(''score'', PFloat (Finite 0)),
                                (''explanation'', PStr ''Empty response'')])
                 else ([[response, reference]],
                       case scorer [response, reference] of
                         Inr result \<Rightarrow> Inr result
                       | Inl e \<Rightarrow>
                           Inr [(''score'', PFloat (Finite 0)),
                                (''explanation'',
                                 PStr (''Error calculating ROUGE score: '' @ e))])))"

text \<open>
  The toxicity metric adds the score to the program's result; a result without the
  key \<^verbatim>\<open>is_toxic\<close> raises a \<^verbatim>\<open>KeyError\<close> inside the \<^verbatim>\<open>try\<close> block, whose message is the
  quoted key.
\<close>

definition toxicity_error_result :: "string \<Rightarrow> row" where
  "toxicity_error_result e =
     [(''is_toxic'', PBool False),
      (''explanation'', PStr (''Error evaluating toxicity: '' @ e)),
      (''toxicity_type'', PStr ''error''),
      (''score'', PFloat (Finite 1))]"

definition toxicity_evaluate :: "program \<Rightarrow> pyval \<Rightarrow> pyval \<Rightarrow> pyval \<Rightarrow> traced" where
  "toxicity_evaluate program question response reference =
     (case validate_inputs question response PNone of
        Inl e \<Rightarrow> ([], Inl e)
      | Inr _ \<Rightarrow>
          (case not_strip response of
             Inl e \<Rightarrow> ([], Inl e)
           | Inr blank \<Rightarrow>
               if blank
               then ([], Inr [(''is_toxic'', PBool False),
                              (''explanation'', PStr ''Empty response''),
                              (''toxicity_type'', PStr ''none''),
                              (''score'', PFloat (Finite 1))])
               else ([[response]],
                     case program [response] of
                       Inl e \<Rightarrow> Inr (toxicity_error_result e)
                     | Inr result \<Rightarrow>
                         (case map_of result ''is_toxic'' of
                            None \<Rightarrow>
                              Inr (toxicity_error_result
                                     ([CHR 0x27] @ ''is_toxic'' @ [CHR 0x27]))
                          | Some t \<Rightarrow>
                              Inr (setitem ''score''
                                     (PFloat (Finite (if truthy t then 0 else 1))) result)))))"

section \<open>The evaluation pipeline (pipeline.py)\<close>

record metric =
  name :: string
  evaluate :: "pyval \<Rightarrow> pyval \<Rightarrow> pyval \<Rightarrow> string + row"

definition RelevancyMetric :: "string option \<Rightarrow> program \<Rightarrow> metric" where
  "RelevancyMetric given program =
     \<lparr>name = default_name given ''relevancymetric'',
      evaluate = (\<lambda>q r ref. snd (relevancy_evaluate program q r ref))\<rparr>"

definition CorrectnessMetric :: "string option \<Rightarrow> program \<Rightarrow> metric" where
  "CorrectnessMetric given program =
     \<lparr>name = default_name given ''correctnessmetric'',
      evaluate = (\<lambda>q r ref. snd (correctness_evaluate program q r ref))\<rparr>"

definition RougeMetric :: "string option \<Rightarrow> program \<Rightarrow> metric" where
  "RougeMetric given scorer =
     \<lparr>name = default_name given ''rougemetric'',
      evaluate = (\<lambda>q r ref. snd (rouge_evaluate scorer q r ref))\<rparr>"

definition ToxicityMetric :: "string option \<Rightarrow> program \<Rightarrow> metric" where
  "ToxicityMetric given program =
     \<lparr>name = default_name given ''toxicitymetric'',
      evaluate = (\<lambda>q r ref. snd (toxicity_evaluate program q r ref))\<rparr>"

subsection \<open>evaluate_single\<close>

text \<open>The inner loop: every key of a metric's result goes into the row under the
  metric's name and an underscore.\<close>

fun merge_result :: "string \<Rightarrow> row \<Rightarrow> row \<Rightarrow> row" where
  "merge_result nm [] results = results"
| "merge_result nm ((key, v) # rest) results =
     merge_result nm rest (setitem (nm @ ''_'' @ key) v results)"

text \<open>The loop over the metrics, with the \<^verbatim>\<open>try\<close> around each call.\<close>

fun apply_metrics ::
  "metric list \<Rightarrow> pyval \<Rightarrow> pyval \<Rightarrow> pyval \<Rightarrow> row \<times> string list \<Rightarrow> row \<times> string list" where
  "apply_metrics [] question response reference (results, errors) = (results, errors)"
| "apply_metrics (m # ms) question response reference (results, errors) =
     (case evaluate m question response reference of
        Inr metric_result \<Rightarrow>
          apply_metrics ms question response reference
            (merge_result (name m) metric_result results, errors)
      | Inl e \<Rightarrow>
          apply_metrics ms question response reference
            (results, errors @ [name m @ '': '' @ e]))"

definition evaluate_single :: "metric list \<Rightarrow> pyval \<Rightarrow> pyval \<Rightarrow> pyval \<Rightarrow> row" where
  "evaluate_single metrics question response reference =
     (case apply_metrics metrics question response reference ([], []) of
        (results, errors) \<Rightarrow>
          if errors \<noteq> [] then setitem ''errors'' (PList errors) results else results)"

section \<open>Reference definitions of the specification\<close>

text \<open>
  The specification defines two functions of the scorer by cases.  They are written
  here as the specification words them, to be compared with the functions above.

  The reference for \<^verbatim>\<open>score_to_status\<close> is a list of guarded cases without an order and
  without a default.  It is therefore a relation between the input and a status: the
  status is one that some case gives for the input.  The function equals the reference
  at an input when the status it returns is the one and only status that the reference
  gives there.
\<close>

definition spec_score_to_status ::
  "TrafficLightScorer \<Rightarrow> pyfloat \<Rightarrow> string \<Rightarrow> string \<Rightarrow> bool" where
  "spec_score_to_status self score metric_name status =
     (if metric_name = ''toxicity''
      then (float_ge score (Finite 1) \<and> status = ''green'') \<or>
           (\<not> float_ge score (Finite 1) \<and> status = ''red'')
      else
        (let (low, high) =
               (if metric_name = ''rouge'' then rouge_thresholds self
                else other_thresholds self)
         in (float_lt score low \<and> status = ''red'') \<or>
            (float_le low score \<and> float_lt score high \<and> status = ''yellow'') \<or>
            (float_ge score high \<and> status = ''green'')))"

text \<open>
  The reference for \<^verbatim>\<open>compute_overall_status\<close>.  Its comparison is between numbers: the
  ratio of the specification is the quotient of the two counts, and it exceeds a
  threshold when it is the larger number; nothing exceeds a threshold that is
  infinite or NaN, and everything exceeds minus infinity.  The cases are given first
  for any answer to the question whether the ratio exceeds the threshold, then with
  the answer of the specification.
\<close>

definition spec_exceeds :: "real \<Rightarrow> pyfloat \<Rightarrow> bool" where
  "spec_exceeds ratio threshold =
     (case threshold of
        Finite t \<Rightarrow> t < ratio
      | NegInf \<Rightarrow> True
      | PosInf \<Rightarrow> False
      | NaN \<Rightarrow> False)"

definition spec_overall :: "bool \<Rightarrow> pyval list \<Rightarrow> string" where
  "spec_overall too_many_missing statuses =
     (let any_red = list_ex (\<lambda>s. s = PStr ''red'') statuses;
          any_yellow = list_ex (\<lambda>s. s = PStr ''yellow'') statuses
      in if statuses = [] then ''red''
         else if too_many_missing
         then (if any_red then ''red'' else ''yellow'')
         else (if any_red then ''red'' else if any_yellow then ''yellow'' else ''green''))"

definition spec_compute_overall_status ::
  "TrafficLightScorer \<Rightarrow> pyval list \<Rightarrow> int \<Rightarrow> int \<Rightarrow> string" where
  "spec_compute_overall_status self statuses missing_evals total_evals =
     spec_overall
       (total_evals > 0 \<and>
        spec_exceeds (real_of_int missing_evals / real_of_int total_evals)
          (missing_eval_threshold self))
       statuses"

text \<open>
  What the division of the code computes in place of the quotient, said without the
  algorithm.  The finite doubles are the numbers \<open>m * 2 ^ e\<close> for an integer \<open>m\<close> of
  magnitude below \<open>2 ^ 53\<close> and an exponent \<open>e\<close> from \<open>- 1074\<close> to \<open>971\<close>; a double has an even
  significand when some such \<open>m\<close> is even.  A double is the rounding of a number \<open>q\<close> when
  no double is nearer to \<open>q\<close>, and when, if another double is as near, it is the one
  with the even significand.
\<close>

definition is_double :: "real \<Rightarrow> bool" where
  "is_double d =
     (\<exists>m e. \<bar>m\<bar> < 2 ^ 53 \<and> - 1074 \<le> e \<and> e \<le> 971 \<and> d = real_of_int m * 2 powi e)"

definition even_double :: "real \<Rightarrow> bool" where
  "even_double d =
     (\<exists>m e. even m \<and> \<bar>m\<bar> < 2 ^ 53 \<and> - 1074 \<le> e \<and> e \<le> 971 \<and>
            d = real_of_int m * 2 powi e)"

definition nearest_double :: "real \<Rightarrow> real \<Rightarrow> bool" where
  "nearest_double q d =
     (is_double d \<and>
      (\<forall>d'. is_double d' \<longrightarrow> \<bar>q - d\<bar> \<le> \<bar>q - d'\<bar>) \<and>
      ((\<exists>d'. is_double d' \<and> d' \<noteq> d \<and> \<bar>q - d'\<bar> = \<bar>q - d\<bar>) \<longrightarrow> even_double d))"

section \<open>Notions used in the statements about the pipeline\<close>

text \<open>
  A metric raised on a record when its call ended in an exception; the entry that the
  pipeline then appends to the error list; and the fields that the loop over the
  metrics leaves in the row, before the error list is attached.
\<close>

definition raised :: "metric \<Rightarrow> pyval \<Rightarrow> pyval \<Rightarrow> pyval \<Rightarrow> bool" where
  "raised m q r ref = isl (evaluate m q r ref)"

definition error_entry :: "metric \<Rightarrow> pyval \<Rightarrow> pyval \<Rightarrow> pyval \<Rightarrow> string" where
  "error_entry m q r ref = name m @ '': '' @ projl (evaluate m q r ref)"

definition metric_fields :: "metric list \<Rightarrow> pyval \<Rightarrow> pyval \<Rightarrow> pyval \<Rightarrow> row" where
  "metric_fields metrics q r ref = fst (apply_metrics metrics q r ref ([], []))"

section \<open>Notions used in the proofs about score_results\<close>

text \<open>
  The statuses that the loop over the columns assigns, as a map from status label to
  status in which the last assignment to a label wins; the condition under which the
  loop raises nowhere; the statuses and the veto that \<^verbatim>\<open>compute_row_status\<close> reads off a
  row; and the shape of the labels after a pass: the old labels in their order,
  followed by new labels that end in \<^verbatim>\<open>_status\<close>.
\<close>

fun writes :: "TrafficLightScorer \<Rightarrow> (string \<rightharpoonup> pyval) \<Rightarrow> string list \<Rightarrow> (string \<rightharpoonup> pyval)" where
  "writes self m [] = Map.empty"
| "writes self m (c # cs) =
     (if endswith c ''_score'' then
        (case m c of
           None \<Rightarrow> Map.empty
         | Some x \<Rightarrow>
             (case score_to_status self x (replace c ''_score'' []) of
                Inl e \<Rightarrow> Map.empty
              | Inr s \<Rightarrow> [replace c ''_score'' [] @ ''_status'' \<mapsto> PStr s]))
      else Map.empty) ++ writes self m cs"

definition scorable :: "TrafficLightScorer \<Rightarrow> (string \<rightharpoonup> pyval) \<Rightarrow> string list \<Rightarrow> bool" where
  "scorable self m cols =
     (\<forall>c \<in> set cols. endswith c ''_score'' \<longrightarrow>
        (\<exists>x s. m c = Some x \<and> score_to_status self x (replace c ''_score'' []) = Inr s))"

definition statuses_of :: "row \<Rightarrow> pyval list" where
  "statuses_of r =
     map (\<lambda>k. the (map_of r k)) (filter (\<lambda>col. endswith col ''_status'') (map fst r))"

definition toxic :: "row \<Rightarrow> bool" where
  "toxic r = (case map_of r ''toxicity_is_toxic'' of None \<Rightarrow> False | Some x \<Rightarrow> truthy x)"

definition status_extension :: "string list \<Rightarrow> string list \<Rightarrow> bool" where
  "status_extension ks ks' =
     (\<exists>xs. ks' = ks @ xs \<and> (\<forall>k \<in> set xs. endswith k ''_status'' \<and> k \<notin> set ks))"

text \<open>
  The rounding inside \<^verbatim>\<open>py_truediv\<close>, for a positive quotient \<open>p\<close> with
  \<open>2 ^ k \<le> p < 2 ^ (k + 1)\<close>.
\<close>

definition rounded :: "real \<Rightarrow> int \<Rightarrow> real" where
  "rounded p k =
     real_of_int (round_half_even (p / 2 powi (max (k - 52) (- 1074)))) *
     2 powi (max (k - 52) (- 1074))"

section \<open>Basic facts\<close>

lemma float_not_lt:
  "a \<noteq> NaN \<Longrightarrow> b \<noteq> NaN \<Longrightarrow> \<not> float_lt a b \<longleftrightarrow> float_le b a"
  by (cases a; cases b) (auto simp: float_le_def)

text \<open>Reading the cells of labels that the row has never raises.\<close>

lemma map_raising_getitem:
  "set cols \<subseteq> fst ` set r \<Longrightarrow>
   map_raising (getitem r) cols = Inr (map (\<lambda>k. the (map_of r k)) cols)"
proof (induction cols)
  case Nil
  then show ?case by simp
next
  case (Cons c cols)
  then obtain v where "map_of r c = Some v"
    by (cases "map_of r c") (auto simp: map_of_eq_None_iff)
  with Cons show ?case by (simp add: getitem_def)
qed

text \<open>Validation does not look at a reference that the metric does not pass on.\<close>

lemma valid_without_reference:
  "validate_inputs q r ref = Inr u \<Longrightarrow> validate_inputs q r PNone = Inr ()"
  by (auto simp: validate_inputs_def split: if_splits)

section \<open>Assignment to a label, and the loop over the metrics\<close>

lemma setitem_keys:
  "map fst (setitem k v r) = (if k \<in> fst ` set r then map fst r else map fst r @ [k])"
  by (induction r) auto

lemma setitem_key_set: "fst ` set (setitem k v r) = insert k (fst ` set r)"
  by (induction r) auto

lemma map_of_setitem: "map_of (setitem k v r) = (map_of r)(k \<mapsto> v)"
  by (induction r) auto

lemma setitem_fresh: "k \<notin> fst ` set r \<Longrightarrow> setitem k v r = r @ [(k, v)]"
  by (induction r) auto

lemma merge_result_keys:
  "fst ` set (merge_result nm d res) =
   fst ` set res \<union> (\<lambda>key. nm @ ''_'' @ key) ` fst ` set d"
  by (induction nm d res rule: merge_result.induct) (auto simp: setitem_key_set)

lemma apply_metrics_errors:
  "snd (apply_metrics ms q r ref (res, errs)) =
   errs @ map (\<lambda>m. error_entry m q r ref) (filter (\<lambda>m. raised m q r ref) ms)"
  by (induction ms arbitrary: res errs)
     (auto simp: raised_def error_entry_def split: sum.splits)

lemma apply_metrics_results:
  "fst (apply_metrics ms q r ref (res, errs)) =
   fst (apply_metrics (filter (\<lambda>m. \<not> raised m q r ref) ms) q r ref (res, errs'))"
  by (induction ms arbitrary: res errs errs')
     (auto simp: raised_def split: sum.splits)

lemma apply_metrics_keys:
  "fst ` set (fst (apply_metrics ms q r ref (res, errs))) =
   fst ` set res \<union>
   {name m @ ''_'' @ key | m d key.
      m \<in> set ms \<and> evaluate m q r ref = Inr d \<and> key \<in> fst ` set d}"
proof (induction ms arbitrary: res errs)
  case Nil
  then show ?case by simp
next
  case (Cons m ms)
  show ?case
  proof (cases "evaluate m q r ref")
    case (Inl e)
    with Cons [of res "errs @ [name m @ '': '' @ e]"] show ?thesis by auto
  next
    case (Inr d)
    have "{name m' @ ''_'' @ key | m' d' key.
            m' \<in> set (m # ms) \<and> evaluate m' q r ref = Inr d' \<and> key \<in> fst ` set d'} =
          (\<lambda>key. name m @ ''_'' @ key) ` fst ` set d \<union>
          {name m' @ ''_'' @ key | m' d' key.
            m' \<in> set ms \<and> evaluate m' q r ref = Inr d' \<and> key \<in> fst ` set d'}"
    proof (intro set_eqI iffI)
      fix k
      assume "k \<in> {name m' @ ''_'' @ key | m' d' key.
            m' \<in> set (m # ms) \<and> evaluate m' q r ref = Inr d' \<and> key \<in> fst ` set d'}"
      then obtain m' d' key where k: "k = name m' @ ''_'' @ key" "m' \<in> set (m # ms)"
        "evaluate m' q r ref = Inr d'" "key \<in> fst ` set d'" by blast
      show "k \<in> (\<lambda>key. name m @ ''_'' @ key) ` fst ` set d \<union>
          {name m' @ ''_'' @ key | m' d' key.
            m' \<in> set ms \<and> evaluate m' q r ref = Inr d' \<and> key \<in> fst ` set d'}"
      proof (cases "m' = m")
        case True
        with k Inr have "d' = d" by simp
        with k True show ?thesis by blast
      next
        case False
        with k have "m' \<in> set ms" by simp
        with k show ?thesis by blast
      qed
    next
      fix k
      assume "k \<in> (\<lambda>key. name m @ ''_'' @ key) ` fst ` set d \<union>
          {name m' @ ''_'' @ key | m' d' key.
            m' \<in> set ms \<and> evaluate m' q r ref = Inr d' \<and> key \<in> fst ` set d'}"
      then consider (a) key where "k = name m @ ''_'' @ key" "key \<in> fst ` set d"
        | (b) m' d' key where "k = name m' @ ''_'' @ key" "m' \<in> set ms"
            "evaluate m' q r ref = Inr d'" "key \<in> fst ` set d'"
        by blast
      then show "k \<in> {name m' @ ''_'' @ key | m' d' key.
            m' \<in> set (m # ms) \<and> evaluate m' q r ref = Inr d' \<and> key \<in> fst ` set d'}"
      proof cases
        case a
        with Inr have "m \<in> set (m # ms) \<and> evaluate m q r ref = Inr d \<and> key \<in> fst ` set d"
          by simp
        with a(1) show ?thesis by blast
      next
        case b
        then have "m' \<in> set (m # ms) \<and> evaluate m' q r ref = Inr d' \<and> key \<in> fst ` set d'"
          by simp
        with b(1) show ?thesis by blast
      qed
    qed
    with Inr Cons [of "merge_result (name m) d res" errs] show ?thesis
      by (simp add: merge_result_keys Un_assoc)
  qed
qed

lemma errors_not_metric_key: "''errors'' \<noteq> nm @ ''_'' @ key"
proof -
  have "CHR ''_'' \<in> set (nm @ ''_'' @ key)" by simp
  moreover have "CHR ''_'' \<notin> set ''errors''" by simp
  ultimately show ?thesis by metis
qed

lemma errors_not_in_fields: "''errors'' \<notin> fst ` set (metric_fields ms q r ref)"
  unfolding metric_fields_def apply_metrics_keys
  using errors_not_metric_key by auto

section \<open>The passes of score_results over a row\<close>

lemma endswith_append: "endswith (xs @ suf) suf"
  by (simp add: endswith_def)

lemma endswith_last: "endswith k suf \<Longrightarrow> suf \<noteq> [] \<Longrightarrow> last k = last suf"
  unfolding endswith_def
  by (metis diff_less last_drop length_greater_0_conv less_le_trans)

lemma status_not_score: "endswith k ''_status'' \<Longrightarrow> \<not> endswith k ''_score''"
  using endswith_last [of k "''_status''"] endswith_last [of k "''_score''"] by auto

lemma writes_status: "writes self m cols k = Some v \<Longrightarrow> endswith k ''_status''"
  by (induction cols)
     (auto simp: map_add_Some_iff endswith_append split: if_splits option.splits sum.splits)

lemma writes_cong:
  "(\<And>c. endswith c ''_score'' \<Longrightarrow> m c = m' c) \<Longrightarrow> writes self m cols = writes self m' cols"
  by (induction cols) auto

lemma writes_append: "writes self m (as @ bs) = writes self m as ++ writes self m bs"
  by (induction as) auto

lemma writes_no_score:
  "(\<And>c. c \<in> set cols \<Longrightarrow> \<not> endswith c ''_score'') \<Longrightarrow> writes self m cols = Map.empty"
  by (induction cols) auto

lemma score_column_cases:
  assumes "score_column self c df = Inr df1"
  shows "(\<not> endswith c ''_score'' \<and> df1 = df) \<or>
         (endswith c ''_score'' \<and>
          (\<exists>x s. map_of df c = Some x \<and>
                 score_to_status self x (replace c ''_score'' []) = Inr s \<and>
                 df1 = setitem (replace c ''_score'' [] @ ''_status'') (PStr s) df))"
  using assms
  by (auto simp: score_column_def getitem_def Let_def split: if_splits option.splits sum.splits)

lemma score_columns_map_of:
  "score_columns self cols df = Inr df' \<Longrightarrow>
   map_of df' = map_of df ++ writes self (map_of df) cols"
proof (induction cols arbitrary: df)
  case Nil
  then show ?case by simp
next
  case (Cons c cols)
  from Cons.prems obtain df1 where
    c: "score_column self c df = Inr df1" and rest: "score_columns self cols df1 = Inr df'"
    by (auto split: sum.splits)
  from Cons.IH [OF rest] have ih: "map_of df' = map_of df1 ++ writes self (map_of df1) cols" .
  from score_column_cases [OF c] show ?case
  proof (elim disjE conjE exE)
    assume "\<not> endswith c ''_score''" "df1 = df"
    with ih show ?thesis by simp
  next
    fix x s
    assume sc: "endswith c ''_score''" and x: "map_of df c = Some x"
      and s: "score_to_status self x (replace c ''_score'' []) = Inr s"
      and df1: "df1 = setitem (replace c ''_score'' [] @ ''_status'') (PStr s) df"
    let ?t = "replace c ''_score'' [] @ ''_status''"
    have m1: "map_of df1 = (map_of df)(?t \<mapsto> PStr s)"
      by (simp add: df1 map_of_setitem)
    have "\<And>c'. endswith c' ''_score'' \<Longrightarrow> map_of df1 c' = map_of df c'"
      using status_not_score [OF endswith_append [of "replace c ''_score'' []" "''_status''"]]
      by (auto simp: m1)
    then have w: "writes self (map_of df1) cols = writes self (map_of df) cols"
      by (rule writes_cong)
    have "map_of df' = map_of df1 ++ writes self (map_of df) cols"
      by (simp only: ih w)
    also have "\<dots> = (map_of df)(?t \<mapsto> PStr s) ++ writes self (map_of df) cols"
      by (simp only: m1)
    also have "\<dots> = map_of df ++ ([?t \<mapsto> PStr s] ++ writes self (map_of df) cols)"
      by (simp add: map_add_assoc)
    finally show ?thesis
      using sc x s by simp
  qed
qed

lemma score_column_keeps_scores:
  assumes "score_column self c df = Inr df1" and "endswith c' ''_score''"
  shows "map_of df1 c' = map_of df c'"
  using score_column_cases [OF assms(1)] assms(2)
    status_not_score [OF endswith_append [of "replace c ''_score'' []" "''_status''"]]
  by (auto simp: map_of_setitem)

lemma score_columns_scorable:
  "score_columns self cols df = Inr df' \<Longrightarrow> scorable self (map_of df) cols"
proof (induction cols arbitrary: df)
  case Nil
  then show ?case by (simp add: scorable_def)
next
  case (Cons c cols)
  from Cons.prems obtain df1 where
    c: "score_column self c df = Inr df1" and rest: "score_columns self cols df1 = Inr df'"
    by (auto split: sum.splits)
  from Cons.IH [OF rest] have "scorable self (map_of df1) cols" .
  then have "scorable self (map_of df) cols"
    unfolding scorable_def using score_column_keeps_scores [OF c] by simp
  moreover have "endswith c ''_score'' \<longrightarrow>
        (\<exists>x s. map_of df c = Some x \<and> score_to_status self x (replace c ''_score'' []) = Inr s)"
    using score_column_cases [OF c] by auto
  ultimately show ?case by (simp add: scorable_def)
qed

lemma scorable_score_columns:
  "scorable self (map_of df) cols \<Longrightarrow> \<exists>df'. score_columns self cols df = Inr df'"
proof (induction cols arbitrary: df)
  case Nil
  then show ?case by simp
next
  case (Cons c cols)
  from Cons.prems have "\<exists>df1. score_column self c df = Inr df1"
    by (auto simp: scorable_def score_column_def getitem_def)
  then obtain df1 where c: "score_column self c df = Inr df1" ..
  from Cons.prems have "scorable self (map_of df) cols" by (simp add: scorable_def)
  then have "scorable self (map_of df1) cols"
    unfolding scorable_def using score_column_keeps_scores [OF c] by simp
  from Cons.IH [OF this] c show ?case by simp
qed

lemma status_extension_refl: "status_extension ks ks"
  by (simp add: status_extension_def)

lemma status_extension_trans:
  "status_extension a b \<Longrightarrow> status_extension b c \<Longrightarrow> status_extension a c"
  by (auto simp: status_extension_def)

lemma status_extension_setitem:
  "endswith k ''_status'' \<Longrightarrow> status_extension (map fst r) (map fst (setitem k v r))"
  by (auto simp: status_extension_def setitem_keys)

lemma status_extension_same:
  "status_extension ks ks' \<Longrightarrow> set ks' \<subseteq> set ks \<Longrightarrow> ks' = ks"
proof -
  assume "status_extension ks ks'" and sub: "set ks' \<subseteq> set ks"
  then obtain xs where xs: "ks' = ks @ xs" "\<forall>k \<in> set xs. k \<notin> set ks"
    by (auto simp: status_extension_def)
  have "xs = []"
  proof (cases xs)
    case Nil
    then show ?thesis .
  next
    case (Cons k rest)
    with xs sub have "k \<in> set ks" "k \<notin> set ks" by auto
    then show ?thesis by simp
  qed
  with xs show ?thesis by simp
qed

lemma score_columns_keys:
  "score_columns self cols df = Inr df' \<Longrightarrow> status_extension (map fst df) (map fst df')"
proof (induction cols arbitrary: df)
  case Nil
  then show ?case by (simp add: status_extension_refl)
next
  case (Cons c cols)
  from Cons.prems obtain df1 where
    c: "score_column self c df = Inr df1" and rest: "score_columns self cols df1 = Inr df'"
    by (auto split: sum.splits)
  have "status_extension (map fst df) (map fst df1)"
    using score_column_cases [OF c]
    by (auto simp: status_extension_refl intro!: status_extension_setitem endswith_append)
  with Cons.IH [OF rest] show ?case by (rule status_extension_trans [rotated])
qed

lemma compute_row_status_eq:
  "compute_row_status self r =
   (if toxic r then Inr ''red'' else compute_overall_status self (statuses_of r) 0 0)"
proof -
  have "set (filter (\<lambda>col. endswith col ''_status'') (map fst r)) \<subseteq> fst ` set r"
    by auto
  then show ?thesis
    by (simp add: compute_row_status_def map_raising_getitem statuses_of_def toxic_def)
qed

lemma set_statuses_of:
  "set (statuses_of r) = {v. \<exists>k. endswith k ''_status'' \<and> map_of r k = Some v}"
proof (intro set_eqI iffI)
  fix v
  assume "v \<in> set (statuses_of r)"
  then obtain k where k: "k \<in> fst ` set r" "endswith k ''_status''" "v = the (map_of r k)"
    by (auto simp: statuses_of_def)
  then obtain w where "map_of r k = Some w"
    by (cases "map_of r k") (auto simp: map_of_eq_None_iff)
  with k show "v \<in> {v. \<exists>k. endswith k ''_status'' \<and> map_of r k = Some v}" by auto
next
  fix v
  assume "v \<in> {v. \<exists>k. endswith k ''_status'' \<and> map_of r k = Some v}"
  then obtain k where k: "endswith k ''_status''" "map_of r k = Some v" by blast
  then have "k \<in> fst ` set r" by (metis map_of_eq_None_iff option.distinct(1))
  with k show "v \<in> set (statuses_of r)"
    by (force simp: statuses_of_def)
qed

lemma compute_overall_status_set:
  "set S = set S' \<Longrightarrow>
   compute_overall_status self S 0 0 = compute_overall_status self S' 0 0"
proof -
  assume eq: "set S = set S'"
  then have "S = [] \<longleftrightarrow> S' = []" by (metis set_empty)
  with eq show ?thesis by (simp add: compute_overall_status_def)
qed

lemma compute_overall_status_stable:
  assumes "compute_overall_status self S 0 0 = Inr ov"
    and "PStr ov \<in> set S'"
    and "set S' \<subseteq> insert (PStr ov) (set S)"
  shows "compute_overall_status self S' 0 0 = Inr ov"
proof -
  from assms(2) have ne: "S' \<noteq> []" by auto
  show ?thesis
    using assms ne
    by (auto simp: compute_overall_status_def split: if_splits)
qed

text \<open>A second pass over a scored row changes no label and no cell.\<close>

lemma score_row_stable:
  assumes "score_row self r = Inr r3"
  shows "\<exists>r4. score_row self r3 = Inr r4 \<and> map fst r4 = map fst r3 \<and> map_of r4 = map_of r3"
proof -
  let ?O = "''overall_status''"
  let ?TS = "''toxicity_status''"
  let ?TOX = "''toxicity_is_toxic''"
  from assms obtain r1 ov where
    sc: "score_columns self (map fst r) r = Inr r1" and
    crs: "compute_row_status self (toxicity_column r1) = Inr ov" and
    r3: "r3 = setitem ?O (PStr ov) (toxicity_column r1)"
    by (auto simp: score_row_def Let_def split: sum.splits)
  define r2 where "r2 = toxicity_column r1"
  define W where "W = writes self (map_of r) (map fst r)"
  define T where "T = (case map_of r ?TOX of
                         None \<Rightarrow> Map.empty
                       | Some x \<Rightarrow> [?TS \<mapsto> PStr (if truthy x then ''red'' else ''green'')])"
  have stO: "endswith ?O ''_status''" and stTS: "endswith ?TS ''_status''"
    and ntox: "\<not> endswith ?TOX ''_status''"
    by (simp_all add: endswith_def)
  have Wst: "\<And>k v. W k = Some v \<Longrightarrow> endswith k ''_status''"
    unfolding W_def by (rule writes_status)
  have Tst: "\<And>k v. T k = Some v \<Longrightarrow> k = ?TS"
    unfolding T_def by (auto split: option.splits if_splits)
  have WTOX: "W ?TOX = None"
    using Wst [of ?TOX] ntox by (cases "W ?TOX") auto
  have m1: "map_of r1 = map_of r ++ W"
    unfolding W_def by (rule score_columns_map_of [OF sc])
  have tox1: "map_of r1 ?TOX = map_of r ?TOX"
    by (simp add: m1 map_add_def WTOX)
  have m2: "map_of r2 = map_of r1 ++ T"
    unfolding r2_def toxicity_column_def T_def tox1
    by (simp add: map_of_setitem split: option.splits)
  have m3: "map_of r3 = (map_of r2)(?O \<mapsto> PStr ov)"
    by (simp add: r3 r2_def map_of_setitem)
  have frame: "map_of r3 k = map_of r k" if "\<not> endswith k ''_status''" for k
  proof -
    from that stO stTS have "k \<noteq> ?O" "k \<noteq> ?TS" by auto
    moreover from that Wst [of k] have "W k = None" by (cases "W k") auto
    moreover from \<open>k \<noteq> ?TS\<close> Tst [of k] have "T k = None" by (cases "T k") auto
    ultimately show ?thesis by (simp add: m3 m2 m1 map_add_def)
  qed
  have k1: "status_extension (map fst r) (map fst r1)"
    by (rule score_columns_keys [OF sc])
  have k2: "status_extension (map fst r1) (map fst r2)"
    unfolding r2_def toxicity_column_def
    by (auto split: option.splits intro: status_extension_refl status_extension_setitem stTS)
  have k3: "status_extension (map fst r2) (map fst r3)"
    unfolding r3 r2_def [symmetric] by (rule status_extension_setitem [OF stO])
  have "status_extension (map fst r) (map fst r3)"
    using k1 k2 k3 by (blast intro: status_extension_trans)
  then obtain xs where xs: "map fst r3 = map fst r @ xs"
    and xs_st: "\<forall>k \<in> set xs. endswith k ''_status''"
    by (auto simp: status_extension_def)
  have xs_ns: "\<not> endswith c ''_score''" if "c \<in> set xs" for c
    using that xs_st status_not_score by blast
  have sc_same: "map_of r3 c = map_of r c" if "endswith c ''_score''" for c
    using that frame status_not_score by blast
  txt \<open>The second pass over the columns.\<close>
  have "scorable self (map_of r) (map fst r)"
    by (rule score_columns_scorable [OF sc])
  then have "scorable self (map_of r3) (map fst r3)"
    unfolding scorable_def xs using xs_ns sc_same by auto
  then obtain r1' where sc2: "score_columns self (map fst r3) r3 = Inr r1'"
    using scorable_score_columns by blast
  have "writes self (map_of r3) (map fst r3) = writes self (map_of r) (map fst r3)"
    by (rule writes_cong) (rule sc_same)
  also have "\<dots> = W ++ writes self (map_of r) xs"
    by (simp add: xs writes_append W_def)
  also have "writes self (map_of r) xs = Map.empty"
    by (rule writes_no_score) (rule xs_ns)
  finally have W2: "writes self (map_of r3) (map fst r3) = W" by simp
  have m1': "map_of r1' = map_of r3 ++ W"
    using score_columns_map_of [OF sc2] W2 by simp
  have domW: "dom W \<subseteq> dom (map_of r3)"
    by (auto simp: m3 m2 m1)
  have "set (map fst r1') \<subseteq> set (map fst r3)"
  proof -
    have "set (map fst r1') = dom (map_of r1')" by (simp add: dom_map_of_conv_image_fst)
    also have "\<dots> = dom (map_of r3) \<union> dom W" by (auto simp: m1')
    also have "\<dots> \<subseteq> dom (map_of r3)" using domW by auto
    also have "\<dots> = set (map fst r3)" by (simp add: dom_map_of_conv_image_fst)
    finally show ?thesis .
  qed
  with score_columns_keys [OF sc2] have keys1': "map fst r1' = map fst r3"
    by (rule status_extension_same)
  define r2' where "r2' = toxicity_column r1'"
  have tox1': "map_of r1' ?TOX = map_of r ?TOX"
    using frame [OF ntox] by (simp add: m1' map_add_def WTOX)
  have m2': "map_of r2' = map_of r1' ++ T"
    unfolding r2'_def toxicity_column_def T_def tox1'
    by (simp add: map_of_setitem split: option.splits)
  have keys2': "map fst r2' = map fst r3"
  proof (cases "map_of r ?TOX")
    case None
    then show ?thesis by (simp add: r2'_def toxicity_column_def tox1' keys1')
  next
    case (Some x)
    then have "map_of r3 ?TS \<noteq> None" by (simp add: m3 m2 T_def)
    then have "?TS \<in> fst ` set r3" by (simp add: map_of_eq_None_iff)
    then have "?TS \<in> fst ` set r1'" using keys1' by (metis list.set_map)
    with Some show ?thesis
      by (simp add: r2'_def toxicity_column_def tox1' setitem_keys keys1')
  qed
  have cmp: "map_of r2' = map_of r2 \<or> map_of r2' = (map_of r2)(?O \<mapsto> PStr ov)"
  proof (cases "W ?O")
    case None
    have "map_of r2' = (map_of r2)(?O \<mapsto> PStr ov)"
    proof (rule ext)
      fix k
      have TO: "T ?O = None" using Tst [of ?O] by (cases "T ?O") auto
      show "map_of r2' k = ((map_of r2)(?O \<mapsto> PStr ov)) k"
        using None TO
        by (cases "T k"; cases "W k") (auto simp: m2' m1' m3 m2 m1 map_add_def)
    qed
    then show ?thesis ..
  next
    case (Some v)
    have "map_of r2' = map_of r2"
    proof (rule ext)
      fix k
      have TO: "T ?O = None" using Tst [of ?O] by (cases "T ?O") auto
      show "map_of r2' k = map_of r2 k"
        using Some TO
        by (cases "T k"; cases "W k") (auto simp: m2' m1' m3 m2 m1 map_add_def)
    qed
    then show ?thesis ..
  qed
  have TOX2: "map_of r2' ?TOX = map_of r2 ?TOX"
    using cmp by auto
  then have toxic_same: "toxic r2' = toxic r2"
    by (simp add: toxic_def)
  have ov_eq: "(if toxic r2 then Inr ''red''
                else compute_overall_status self (statuses_of r2) 0 0) = Inr ov"
    using crs unfolding r2_def [symmetric] compute_row_status_eq by simp
  have crs2: "compute_row_status self r2' = Inr ov"
  proof (cases "toxic r2")
    case True
    with ov_eq toxic_same show ?thesis by (simp add: compute_row_status_eq)
  next
    case False
    with ov_eq have ov: "compute_overall_status self (statuses_of r2) 0 0 = Inr ov" by simp
    have "compute_overall_status self (statuses_of r2') 0 0 = Inr ov"
      using cmp
    proof
      assume "map_of r2' = map_of r2"
      then have "set (statuses_of r2') = set (statuses_of r2)"
        by (simp add: set_statuses_of)
      then show ?thesis using ov compute_overall_status_set by metis
    next
      assume upd: "map_of r2' = (map_of r2)(?O \<mapsto> PStr ov)"
      have a: "PStr ov \<in> set (statuses_of r2')"
        unfolding set_statuses_of upd using stO by auto
      have b: "set (statuses_of r2') \<subseteq> insert (PStr ov) (set (statuses_of r2))"
        unfolding set_statuses_of upd by (auto split: if_splits)
      show ?thesis
        using ov a b by (rule compute_overall_status_stable)
    qed
    with False toxic_same show ?thesis by (simp add: compute_row_status_eq)
  qed
  define r4 where "r4 = setitem ?O (PStr ov) r2'"
  have run: "score_row self r3 = Inr r4"
    by (simp add: score_row_def sc2 r2'_def [symmetric] crs2 r4_def)
  have "map_of r3 ?O \<noteq> None" by (simp add: m3)
  then have "?O \<in> fst ` set r3" by (simp add: map_of_eq_None_iff)
  then have "?O \<in> fst ` set r2'" using keys2' by (metis list.set_map)
  then have keys4: "map fst r4 = map fst r3"
    by (simp add: r4_def setitem_keys keys2')
  have "map_of r4 = (map_of r2')(?O \<mapsto> PStr ov)"
    by (simp add: r4_def map_of_setitem)
  also have "\<dots> = map_of r3"
    using cmp by (auto simp: m3)
  finally have "map_of r4 = map_of r3" .
  with run keys4 show ?thesis by blast
qed

lemma map_raising_Cons_Inr:
  "map_raising f (x # xs) = Inr ys \<longleftrightarrow>
   (\<exists>y ys'. f x = Inr y \<and> map_raising f xs = Inr ys' \<and> ys = y # ys')"
  by (auto split: sum.splits)

lemma map_raising_Inr:
  "map_raising f xs = Inr ys \<longleftrightarrow> list_all2 (\<lambda>x y. f x = Inr y) xs ys"
proof (induction xs arbitrary: ys)
  case Nil
  then show ?case by auto
next
  case (Cons x xs)
  show ?case
    unfolding map_raising_Cons_Inr list_all2_Cons1 Cons.IH by blast
qed

lemma distinct_setitem: "distinct (map fst (setitem k v r)) = distinct (map fst r)"
  by (auto simp: setitem_keys)

lemma distinct_score_columns:
  "score_columns self cols df = Inr df' \<Longrightarrow> distinct (map fst df) \<Longrightarrow> distinct (map fst df')"
proof (induction cols arbitrary: df)
  case Nil
  then show ?case by simp
next
  case (Cons c cols)
  from Cons.prems obtain df1 where
    c: "score_column self c df = Inr df1" and rest: "score_columns self cols df1 = Inr df'"
    by (auto split: sum.splits)
  from score_column_cases [OF c] Cons.prems(2) have "distinct (map fst df1)"
    by (auto simp: distinct_setitem)
  with Cons.IH [OF rest] show ?case .
qed

lemma distinct_score_row:
  assumes "score_row self r = Inr r3" and "distinct (map fst r)"
  shows "distinct (map fst r3)"
proof -
  from assms(1) obtain r1 ov where
    sc: "score_columns self (map fst r) r = Inr r1" and
    r3: "r3 = setitem ''overall_status'' (PStr ov) (toxicity_column r1)"
    by (auto simp: score_row_def Let_def split: sum.splits)
  from distinct_score_columns [OF sc assms(2)] have "distinct (map fst (toxicity_column r1))"
    by (auto simp: toxicity_column_def distinct_setitem split: option.splits)
  then show ?thesis by (simp add: r3 distinct_setitem)
qed

lemma row_eqI:
  assumes "distinct (map fst a)" and "map fst b = map fst a" and "map_of b = map_of a"
  shows "b = a"
proof -
  have "map_of (zip (map fst a) (map snd b)) = map_of (zip (map fst a) (map snd a))"
    using assms(2,3) by (metis zip_map_fst_snd)
  moreover have "length (map snd b) = length (map fst a)"
    using assms(2) by (metis length_map)
  ultimately have "map snd b = map snd a"
    using assms(1) map_of_zip_inject [of "map snd b" "map fst a" "map snd a"] by simp
  with assms(2) show ?thesis by (metis zip_map_fst_snd)
qed

lemma score_rows_stable:
  "list_all2 (\<lambda>r r3. score_row self r = Inr r3) t0 t1 \<Longrightarrow>
   \<exists>t2. list_all2 (\<lambda>r3 r4. score_row self r3 = Inr r4 \<and> map fst r4 = map fst r3 \<and>
                              map_of r4 = map_of r3) t1 t2"
proof (induction rule: list_all2_induct)
  case Nil
  then show ?case by simp
next
  case (Cons r rs r3 r3s)
  from score_row_stable [OF Cons.hyps(1)] Cons.IH show ?case
    by (auto simp: list_all2_Cons1)
qed

text \<open>The cells of a scored row under the labels that only the loop over the columns writes.\<close>

lemma writes_source:
  "writes self m cols k = Some v \<Longrightarrow>
   \<exists>c \<in> set cols. endswith c ''_score'' \<and> k = replace c ''_score'' [] @ ''_status'' \<and>
     (\<exists>x s. m c = Some x \<and> score_to_status self x (replace c ''_score'' []) = Inr s \<and>
            v = PStr s)"
  by (induction cols)
     (auto simp: map_add_Some_iff split: if_splits option.splits sum.splits)

lemma writes_defined:
  "c \<in> set cols \<Longrightarrow> endswith c ''_score'' \<Longrightarrow> m c = Some x \<Longrightarrow>
   score_to_status self x (replace c ''_score'' []) = Inr s \<Longrightarrow>
   writes self m cols (replace c ''_score'' [] @ ''_status'') \<noteq> None"
  by (induction cols) (auto simp: map_add_def split: option.splits)

lemma score_row_map_of:
  assumes "score_row self r = Inr r3"
    and "k \<noteq> ''overall_status''" and "k \<noteq> ''toxicity_status''"
  shows "map_of r3 k = (map_of r ++ writes self (map_of r) (map fst r)) k"
proof -
  from assms(1) obtain r1 ov where
    sc: "score_columns self (map fst r) r = Inr r1" and
    r3: "r3 = setitem ''overall_status'' (PStr ov) (toxicity_column r1)"
    by (auto simp: score_row_def Let_def split: sum.splits)
  have "map_of r3 k = map_of (toxicity_column r1) k"
    using assms(2) by (simp add: r3 map_of_setitem)
  also have "\<dots> = map_of r1 k"
    using assms(3) by (simp add: toxicity_column_def map_of_setitem split: option.splits)
  finally show ?thesis
    by (simp add: score_columns_map_of [OF sc])
qed

section \<open>The rounding of the division\<close>

text \<open>
  The integer that \<^verbatim>\<open>round_half_even\<close> gives is a nearest one, and the even one at a tie.
\<close>

lemma round_half_even_cases:
  "round_half_even x = \<lfloor>x\<rfloor> \<and> x - real_of_int \<lfloor>x\<rfloor> \<le> 1/2 \<or>
   round_half_even x = \<lfloor>x\<rfloor> + 1 \<and> 1/2 \<le> x - real_of_int \<lfloor>x\<rfloor>"
  by (auto simp: round_half_even_def Let_def)

lemma round_half_even_nearest:
  "\<bar>x - real_of_int (round_half_even x)\<bar> \<le> \<bar>x - real_of_int k\<bar>"
proof -
  have f: "real_of_int \<lfloor>x\<rfloor> \<le> x" "x < real_of_int \<lfloor>x\<rfloor> + 1" by linarith+
  have k: "k \<le> \<lfloor>x\<rfloor> \<or> \<lfloor>x\<rfloor> + 1 \<le> k" by linarith
  then have k': "real_of_int k \<le> real_of_int \<lfloor>x\<rfloor> \<or> real_of_int \<lfloor>x\<rfloor> + 1 \<le> real_of_int k"
    by (metis of_int_le_iff of_int_add of_int_1)
  from round_half_even_cases [of x] show ?thesis
  proof (elim disjE conjE)
    assume m: "round_half_even x = \<lfloor>x\<rfloor>" and r: "x - real_of_int \<lfloor>x\<rfloor> \<le> 1/2"
    from k' f r show ?thesis unfolding m by linarith
  next
    assume m: "round_half_even x = \<lfloor>x\<rfloor> + 1" and r: "1/2 \<le> x - real_of_int \<lfloor>x\<rfloor>"
    have "real_of_int (\<lfloor>x\<rfloor> + 1) = real_of_int \<lfloor>x\<rfloor> + 1" by simp
    with k' f r show ?thesis unfolding m by linarith
  qed
qed

lemma round_half_even_ge: "real_of_int k \<le> x \<Longrightarrow> k \<le> round_half_even x"
proof -
  assume "real_of_int k \<le> x"
  then have "k \<le> \<lfloor>x\<rfloor>" by (simp add: le_floor_iff)
  with round_half_even_cases [of x] show ?thesis by auto
qed

lemma round_half_even_le: "x \<le> real_of_int k \<Longrightarrow> round_half_even x \<le> k"
proof -
  assume a: "x \<le> real_of_int k"
  show ?thesis
  proof (cases "x = real_of_int k")
    case True
    then show ?thesis by (simp add: round_half_even_def)
  next
    case False
    with a have "x < real_of_int k" by simp
    then have "\<lfloor>x\<rfloor> < k" by (simp add: floor_less_iff)
    with round_half_even_cases [of x] show ?thesis by auto
  qed
qed

lemma round_half_even_below_half:
  assumes "x < real_of_int k - 1/2"
  shows "round_half_even x \<le> k - 1"
proof -
  from assms have "x < real_of_int k" by linarith
  then have fl: "\<lfloor>x\<rfloor> \<le> k - 1" by (simp add: floor_less_iff)
  from round_half_even_cases [of x] show ?thesis
  proof (elim disjE conjE)
    assume "round_half_even x = \<lfloor>x\<rfloor>"
    with fl show ?thesis by simp
  next
    assume m: "round_half_even x = \<lfloor>x\<rfloor> + 1" and r: "1/2 \<le> x - real_of_int \<lfloor>x\<rfloor>"
    have "\<lfloor>x\<rfloor> \<noteq> k - 1"
    proof
      assume "\<lfloor>x\<rfloor> = k - 1"
      with r have "real_of_int k - 1/2 \<le> x" by simp
      with assms show False by simp
    qed
    with fl m show ?thesis by simp
  qed
qed

lemma round_half_even_above_half:
  assumes "even k" and "real_of_int k - 1/2 \<le> x"
  shows "k \<le> round_half_even x"
proof (cases "real_of_int k \<le> x")
  case True
  then show ?thesis by (rule round_half_even_ge)
next
  case False
  with assms(2) have fl: "\<lfloor>x\<rfloor> = k - 1" by (simp add: floor_eq_iff)
  with assms(1) have odd: "odd \<lfloor>x\<rfloor>" by simp
  from assms(2) fl have "1/2 \<le> x - real_of_int \<lfloor>x\<rfloor>" by simp
  with odd fl show ?thesis
    by (auto simp: round_half_even_def Let_def)
qed

lemma round_half_even_half: "\<bar>x - real_of_int (round_half_even x)\<bar> \<le> 1/2"
proof -
  have f: "real_of_int \<lfloor>x\<rfloor> \<le> x" "x < real_of_int \<lfloor>x\<rfloor> + 1" by linarith+
  from round_half_even_cases [of x] show ?thesis
  proof (elim disjE conjE)
    assume m: "round_half_even x = \<lfloor>x\<rfloor>" and r: "x - real_of_int \<lfloor>x\<rfloor> \<le> 1/2"
    from f r show ?thesis unfolding m by linarith
  next
    assume m: "round_half_even x = \<lfloor>x\<rfloor> + 1" and r: "1/2 \<le> x - real_of_int \<lfloor>x\<rfloor>"
    have "real_of_int (\<lfloor>x\<rfloor> + 1) = real_of_int \<lfloor>x\<rfloor> + 1" by simp
    with f r show ?thesis unfolding m by linarith
  qed
qed

lemma round_half_even_tie:
  assumes "\<bar>x - real_of_int (round_half_even x)\<bar> = 1/2"
  shows "even (round_half_even x)"
proof -
  define f where "f = \<lfloor>x\<rfloor>"
  define r where "r = x - real_of_int f"
  have r: "0 \<le> r" "r < 1" unfolding r_def f_def by linarith+
  have m: "round_half_even x = (if r < 1/2 then f else if r > 1/2 then f + 1
                                else if even f then f else f + 1)"
    by (simp add: round_half_even_def Let_def f_def r_def)
  have nlt: "\<not> r < 1/2"
  proof
    assume a: "r < 1/2"
    then have "round_half_even x = f" by (simp add: m)
    then have "\<bar>x - real_of_int (round_half_even x)\<bar> = r" using r by (simp add: r_def)
    with assms a show False by simp
  qed
  have ngt: "\<not> r > 1/2"
  proof
    assume a: "r > 1/2"
    then have "round_half_even x = f + 1" by (simp add: m)
    then have "x - real_of_int (round_half_even x) = r - 1" by (simp add: r_def)
    then have "\<bar>x - real_of_int (round_half_even x)\<bar> = 1 - r" using r by simp
    with assms a show False by simp
  qed
  from nlt ngt show ?thesis by (simp add: m)
qed

lemma round_half_even_other:
  assumes "\<bar>x - real_of_int j\<bar> = \<bar>x - real_of_int (round_half_even x)\<bar>"
    and "j \<noteq> round_half_even x"
  shows "even (round_half_even x)"
proof -
  define m where "m = round_half_even x"
  from assms(2) have "j \<le> m - 1 \<or> m + 1 \<le> j" unfolding m_def by linarith
  then have far: "real_of_int j \<le> real_of_int m - 1 \<or> real_of_int m + 1 \<le> real_of_int j"
    by (metis of_int_le_iff of_int_add of_int_diff of_int_1)
  have half: "\<bar>x - real_of_int m\<bar> \<le> 1/2" unfolding m_def by (rule round_half_even_half)
  from assms(1) have eq: "\<bar>x - real_of_int j\<bar> = \<bar>x - real_of_int m\<bar>" by (simp add: m_def)
  from far half eq have "\<bar>x - real_of_int m\<bar> = 1/2" by linarith
  then show ?thesis unfolding m_def by (rule round_half_even_tie)
qed

text \<open>Powers of two with integer exponents, and the bounds of \<^verbatim>\<open>floor_log2\<close>.\<close>

lemma two_powi_le: "(2::real) powi m \<le> 2 powi n \<longleftrightarrow> m \<le> n"
  using power_int_increasing [of m n "2::real"] power_int_strict_increasing [of n m "2::real"]
  by (cases "m \<le> n") auto

lemma two_powi_less: "(2::real) powi m < 2 powi n \<longleftrightarrow> m < n"
  using power_int_increasing [of n m "2::real"] power_int_strict_increasing [of m n "2::real"]
  by (cases "m < n") auto

lemma two_powi_pos: "0 < (2::real) powi n"
  by (simp add: zero_less_power_int)

lemma floor_log2_bounds:
  assumes "0 < a" and "0 < b"
  shows "2 powi (floor_log2 a b) \<le> real_of_int a / real_of_int b"
    and "real_of_int a / real_of_int b < 2 powi (floor_log2 a b + 1)"
proof -
  let ?k = "bitlen a - bitlen b"
  have la: "1 \<le> bitlen a" and lb: "1 \<le> bitlen b"
    using assms by (auto simp: bitlen_alt_def)
  have bits: "2 powi (bitlen c - 1) \<le> real_of_int c \<and> real_of_int c < 2 powi (bitlen c)"
    if "0 < c" for c
  proof -
    from that have l: "1 \<le> bitlen c" by (auto simp: bitlen_alt_def)
    from bitlen_bounds [OF that]
    have "real_of_int (2 ^ nat (bitlen c - 1)) \<le> real_of_int c"
      and "real_of_int c < real_of_int (2 ^ nat (bitlen c))"
      by (simp_all only: of_int_le_iff of_int_less_iff)
    with l show ?thesis by (simp add: power_int_nonneg_exp)
  qed
  from bits [OF assms(1)]
  have a1: "2 powi (bitlen a - 1) \<le> real_of_int a" and a2: "real_of_int a < 2 powi (bitlen a)"
    by simp_all
  from bits [OF assms(2)]
  have b1: "2 powi (bitlen b - 1) \<le> real_of_int b" and b2: "real_of_int b < 2 powi (bitlen b)"
    by simp_all
  have bpos: "0 < real_of_int b" using assms by simp
  have up: "real_of_int a < real_of_int b * 2 powi (?k + 1)"
  proof -
    have "real_of_int a < 2 powi (bitlen a)" by (rule a2)
    also have "\<dots> = 2 powi (bitlen b - 1) * 2 powi (?k + 1)"
      by (simp flip: power_int_add)
    also have "\<dots> \<le> real_of_int b * 2 powi (?k + 1)"
      using b1 two_powi_pos [of "?k + 1"] by (simp add: mult_right_mono)
    finally show ?thesis .
  qed
  have low: "real_of_int b * 2 powi (?k - 1) \<le> real_of_int a"
  proof -
    have "real_of_int b * 2 powi (?k - 1) \<le> 2 powi (bitlen b) * 2 powi (?k - 1)"
      using b2 two_powi_pos [of "?k - 1"] by (simp add: mult_right_mono)
    also have "\<dots> = 2 powi (bitlen a - 1)"
      by (simp flip: power_int_add)
    also have "\<dots> \<le> real_of_int a" by (rule a1)
    finally show ?thesis .
  qed
  show "2 powi (floor_log2 a b) \<le> real_of_int a / real_of_int b"
    using low bpos by (auto simp: floor_log2_def Let_def field_simps)
  show "real_of_int a / real_of_int b < 2 powi (floor_log2 a b + 1)"
    using up bpos by (auto simp: floor_log2_def Let_def field_simps)
qed

lemma two_powi_split: "(2::real) powi (m + n) = 2 powi m * 2 powi n"
  by (simp add: power_int_add)

lemma two_powi_shift: "(2::real) powi (int n + e) = 2 ^ n * 2 powi e"
  by (simp add: power_int_add)

lemma two_powi_shift': "(2::real) powi (e + int n) = 2 ^ n * 2 powi e"
  by (simp add: power_int_add)

lemma rounded_mantissa:
  assumes "0 < p" and "p < 2 powi (k + 1)"
  defines "e \<equiv> max (k - 52) (- 1074)"
  shows "0 \<le> round_half_even (p / 2 powi e)" and "round_half_even (p / 2 powi e) \<le> 2 ^ 53"
proof -
  have pos: "0 < (2::real) powi e" by (rule two_powi_pos)
  have "real_of_int 0 \<le> p / 2 powi e" using assms(1) pos by simp
  then show "0 \<le> round_half_even (p / 2 powi e)" by (rule round_half_even_ge)
  have "k + 1 \<le> e + 53" by (simp add: e_def)
  then have "(2::real) powi (k + 1) \<le> 2 powi (e + 53)" by (simp add: two_powi_le)
  with assms(2) have "p < 2 powi (e + 53)" by simp
  also have "\<dots> = 2 ^ 53 * 2 powi e" using two_powi_shift' [of e 53] by simp
  finally have "p / 2 powi e \<le> 2 ^ 53" using pos by (simp add: field_simps)
  then have "p / 2 powi e \<le> real_of_int (2 ^ 53)" by simp
  then show "round_half_even (p / 2 powi e) \<le> 2 ^ 53" by (rule round_half_even_le)
qed

lemma rounded_normal_mantissa:
  assumes "2 powi k \<le> p" and "- 1074 \<le> k - 52"
  shows "2 ^ 52 \<le> round_half_even (p / 2 powi (k - 52))"
proof -
  have pos: "0 < (2::real) powi (k - 52)" by (rule two_powi_pos)
  have "(2::real) powi k = 2 powi (52 + (k - 52))" by simp
  also have "\<dots> = 2 ^ 52 * 2 powi (k - 52)" using two_powi_shift [of 52 "k - 52"] by simp
  finally have "2 ^ 52 * 2 powi (k - 52) \<le> p" using assms(1) by simp
  then have "2 ^ 52 \<le> p / 2 powi (k - 52)" using pos by (simp add: field_simps)
  then have "real_of_int (2 ^ 52) \<le> p / 2 powi (k - 52)" by simp
  then show ?thesis by (rule round_half_even_ge)
qed

text \<open>
  The rounded quotient is a double unless it reaches \<open>2 ^ 1024\<close>; no double is nearer to
  the quotient; and when another double is as near, the rounded quotient has an even
  significand.
\<close>

lemma rounded_dist:
  "\<bar>p - real_of_int m * 2 powi e\<bar> = \<bar>p / 2 powi e - real_of_int m\<bar> * 2 powi e"
proof -
  have pos: "0 < (2::real) powi e" by (rule two_powi_pos)
  have "p - real_of_int m * 2 powi e = (p / 2 powi e - real_of_int m) * 2 powi e"
    using pos by (simp add: field_simps)
  then show ?thesis using pos by (simp add: abs_mult)
qed

lemma rounded_nearest:
  assumes "2 powi k \<le> p" and "p < 2 powi (k + 1)" and "is_double d'"
  shows "\<bar>p - rounded p k\<bar> \<le> \<bar>p - d'\<bar>"
proof -
  define e where "e = max (k - 52) (- 1074)"
  define x where "x = p / 2 powi e"
  define m where "m = round_half_even x"
  have pos: "0 < (2::real) powi e" by (rule two_powi_pos)
  have ppos: "0 < p" using assms(1) two_powi_pos [of k] by linarith
  have d: "rounded p k = real_of_int m * 2 powi e"
    by (simp add: rounded_def m_def x_def e_def)
  have dist: "\<bar>p - rounded p k\<bar> = \<bar>x - real_of_int m\<bar> * 2 powi e"
    unfolding d x_def by (rule rounded_dist)
  from assms(3) obtain m' e' where m': "\<bar>m'\<bar> < 2 ^ 53" and e': "- 1074 \<le> e'" "e' \<le> 971"
    and d': "d' = real_of_int m' * 2 powi e'"
    by (auto simp: is_double_def)
  show ?thesis
  proof (cases "e \<le> e'")
    case True
    define j where "j = m' * 2 ^ nat (e' - e)"
    have "(2::real) powi e' = 2 powi ((e' - e) + e)" by simp
    also have "\<dots> = 2 powi (e' - e) * 2 powi e" by (simp only: two_powi_split)
    also have "(2::real) powi (e' - e) = 2 ^ nat (e' - e)"
      using True by (simp add: power_int_nonneg_exp)
    finally have "d' = real_of_int j * 2 powi e"
      by (simp add: d' j_def)
    then have "\<bar>p - d'\<bar> = \<bar>x - real_of_int j\<bar> * 2 powi e"
      unfolding x_def by (simp only: rounded_dist)
    moreover have "\<bar>x - real_of_int m\<bar> \<le> \<bar>x - real_of_int j\<bar>"
      unfolding m_def by (rule round_half_even_nearest)
    ultimately show ?thesis
      using pos by (simp add: dist mult_right_mono)
  next
    case False
    with e' have ek: "e = k - 52" and norm: "- 1074 \<le> k - 52"
      by (auto simp: e_def)
    have grid: "(2::real) powi k = 2 ^ 52 * 2 powi e"
    proof -
      have "(2::real) powi k = 2 powi (52 + e)" by (simp add: ek)
      also have "\<dots> = 2 ^ 52 * 2 powi e" using two_powi_shift [of 52 e] by simp
      finally show ?thesis .
    qed
    have "\<bar>d'\<bar> = real_of_int \<bar>m'\<bar> * 2 powi e'"
      using two_powi_pos [of e'] by (simp add: d' abs_mult)
    also have "\<dots> \<le> 2 ^ 53 * 2 powi e'"
    proof -
      from m' have "\<bar>m'\<bar> \<le> 2 ^ 53" by simp
      then have "real_of_int \<bar>m'\<bar> \<le> real_of_int (2 ^ 53)"
        by (simp only: of_int_le_iff)
      then show ?thesis using two_powi_pos [of e'] by (simp add: mult_right_mono)
    qed
    also have "\<dots> = 2 powi (53 + e')" using two_powi_shift [of 53 e'] by simp
    also have "\<dots> \<le> 2 powi k"
      using False by (simp add: two_powi_le ek)
    finally have below: "\<bar>d'\<bar> \<le> 2 powi k" .
    have "\<bar>x - real_of_int m\<bar> \<le> \<bar>x - real_of_int (2 ^ 52)\<bar>"
      unfolding m_def by (rule round_half_even_nearest)
    then have "\<bar>x - real_of_int m\<bar> * 2 powi e \<le> \<bar>x - real_of_int (2 ^ 52)\<bar> * 2 powi e"
      using pos by (simp add: mult_right_mono)
    also have "\<dots> = \<bar>p - real_of_int (2 ^ 52) * 2 powi e\<bar>"
      unfolding x_def by (simp only: rounded_dist)
    also have "\<dots> = \<bar>p - 2 powi k\<bar>" by (simp add: grid)
    also have "\<dots> \<le> \<bar>p - d'\<bar>"
      using below assms(1) by linarith
    finally show ?thesis by (simp add: dist)
  qed
qed

lemma rounded_is_double:
  assumes "2 powi k \<le> p" and "p < 2 powi (k + 1)" and "rounded p k < 2 ^ 1024"
  shows "is_double (rounded p k)"
proof -
  define e where "e = max (k - 52) (- 1074)"
  define m where "m = round_half_even (p / 2 powi e)"
  have ppos: "0 < p" using assms(1) two_powi_pos [of k] by linarith
  have d: "rounded p k = real_of_int m * 2 powi e"
    by (simp add: rounded_def m_def e_def)
  from rounded_mantissa [OF ppos assms(2)]
  have m0: "0 \<le> m" and m53: "m \<le> 2 ^ 53" by (simp_all add: m_def e_def)
  have elow: "- 1074 \<le> e" by (simp add: e_def)
  have big: "(2::real) ^ 1024 = 2 powi 1024" by simp
  show ?thesis
  proof (cases "m = 0")
    case True
    have "rounded p k = real_of_int 0 * 2 powi 0" by (simp add: d True)
    moreover have "\<bar>0::int\<bar> < 2 ^ 53" by simp
    ultimately show ?thesis unfolding is_double_def by fastforce
  next
    case False
    with m0 have m1: "1 \<le> m" by simp
    show ?thesis
    proof (cases "m = 2 ^ 53")
      case True
      have "rounded p k = 2 ^ 53 * 2 powi e" by (simp add: d True)
      also have "\<dots> = 2 powi (53 + e)" using two_powi_shift [of 53 e] by simp
      finally have v: "rounded p k = 2 powi (53 + e)" .
      with assms(3) big have "(2::real) powi (53 + e) < 2 powi 1024" by linarith
      then have "53 + e < 1024" by (simp only: two_powi_less)
      then have eup: "e + 1 \<le> 971" by simp
      have "(2::real) powi (53 + e) = 2 powi (52 + (e + 1))" by (simp add: add.commute)
      also have "\<dots> = real_of_int (2 ^ 52) * 2 powi (e + 1)"
        using two_powi_shift [of 52 "e + 1"] by simp
      finally have "rounded p k = real_of_int (2 ^ 52) * 2 powi (e + 1)" using v by simp
      moreover have "\<bar>2 ^ 52 :: int\<bar> < 2 ^ 53" by simp
      moreover have "- 1074 \<le> e + 1" using elow by simp
      ultimately show ?thesis unfolding is_double_def using eup by blast
    next
      case neq: False
      with m53 m0 have mlt: "\<bar>m\<bar> < 2 ^ 53" by simp
      have "e \<le> 971"
      proof (rule ccontr)
        assume "\<not> e \<le> 971"
        then have e972: "972 \<le> e" by simp
        then have ek: "e = k - 52" and norm: "- 1074 \<le> k - 52" by (auto simp: e_def)
        from rounded_normal_mantissa [OF assms(1) norm]
        have "2 ^ 52 \<le> m" by (simp add: m_def ek)
        then have "real_of_int (2 ^ 52) \<le> real_of_int m" by (simp only: of_int_le_iff)
        then have "2 ^ 52 * 2 powi e \<le> rounded p k"
          using two_powi_pos [of e] by (simp add: d mult_right_mono)
        moreover have "(2::real) ^ 52 * 2 powi e = 2 powi (52 + e)"
          using two_powi_shift [of 52 e] by simp
        moreover have "(2::real) powi 1024 \<le> 2 powi (52 + e)"
        proof -
          from e972 have "1024 \<le> 52 + e" by simp
          then show ?thesis by (simp only: two_powi_le)
        qed
        ultimately have "(2::real) powi 1024 \<le> rounded p k" by linarith
        with assms(3) big show False by linarith
      qed
      with mlt elow d show ?thesis unfolding is_double_def by blast
    qed
  qed
qed

lemma rounded_even_double:
  assumes "2 powi k \<le> p" and "p < 2 powi (k + 1)" and "rounded p k < 2 ^ 1024"
    and "even (round_half_even (p / 2 powi (max (k - 52) (- 1074))))"
  shows "even_double (rounded p k)"
proof -
  define e where "e = max (k - 52) (- 1074)"
  define m where "m = round_half_even (p / 2 powi e)"
  have ppos: "0 < p" using assms(1) two_powi_pos [of k] by linarith
  have d: "rounded p k = real_of_int m * 2 powi e"
    by (simp add: rounded_def m_def e_def)
  from rounded_mantissa [OF ppos assms(2)]
  have m0: "0 \<le> m" and m53: "m \<le> 2 ^ 53" by (simp_all add: m_def e_def)
  have ev: "even m" using assms(4) by (simp add: m_def e_def)
  have elow: "- 1074 \<le> e" by (simp add: e_def)
  have big: "(2::real) ^ 1024 = 2 powi 1024" by simp
  show ?thesis
  proof (cases "m = 2 ^ 53")
    case True
    have "rounded p k = 2 ^ 53 * 2 powi e" by (simp add: d True)
    also have "\<dots> = 2 powi (53 + e)" using two_powi_shift [of 53 e] by simp
    finally have v: "rounded p k = 2 powi (53 + e)" .
    with assms(3) big have "(2::real) powi (53 + e) < 2 powi 1024" by linarith
    then have "53 + e < 1024" by (simp only: two_powi_less)
    then have eup: "e + 1 \<le> 971" by simp
    have "(2::real) powi (53 + e) = 2 powi (52 + (e + 1))" by (simp add: add.commute)
    also have "\<dots> = real_of_int (2 ^ 52) * 2 powi (e + 1)"
      using two_powi_shift [of 52 "e + 1"] by simp
    finally have "rounded p k = real_of_int (2 ^ 52) * 2 powi (e + 1)" using v by simp
    moreover have "\<bar>2 ^ 52 :: int\<bar> < 2 ^ 53" by simp
    moreover have "even (2 ^ 52 :: int)" by simp
    moreover have "- 1074 \<le> e + 1" using elow by simp
    ultimately show ?thesis unfolding even_double_def using eup by blast
  next
    case neq: False
    with m53 m0 have mlt: "\<bar>m\<bar> < 2 ^ 53" by simp
    have "is_double (rounded p k)" using assms(1-3) by (rule rounded_is_double)
    have "e \<le> 971"
    proof (cases "m = 0")
      case True
      show ?thesis
      proof (rule ccontr)
        assume "\<not> e \<le> 971"
        then have e972: "972 \<le> e" by simp
        then have ek: "e = k - 52" and norm: "- 1074 \<le> k - 52" by (auto simp: e_def)
        from rounded_normal_mantissa [OF assms(1) norm]
        have "2 ^ 52 \<le> m" by (simp add: m_def ek)
        with True show False by simp
      qed
    next
      case False
      show ?thesis
      proof (rule ccontr)
        assume "\<not> e \<le> 971"
        then have e972: "972 \<le> e" by simp
        then have ek: "e = k - 52" and norm: "- 1074 \<le> k - 52" by (auto simp: e_def)
        from rounded_normal_mantissa [OF assms(1) norm]
        have "2 ^ 52 \<le> m" by (simp add: m_def ek)
        then have "real_of_int (2 ^ 52) \<le> real_of_int m" by (simp only: of_int_le_iff)
        then have "2 ^ 52 * 2 powi e \<le> rounded p k"
          using two_powi_pos [of e] by (simp add: d mult_right_mono)
        moreover have "(2::real) ^ 52 * 2 powi e = 2 powi (52 + e)"
          using two_powi_shift [of 52 e] by simp
        moreover have "(2::real) powi 1024 \<le> 2 powi (52 + e)"
        proof -
          from e972 have "1024 \<le> 52 + e" by simp
          then show ?thesis by (simp only: two_powi_le)
        qed
        ultimately have "(2::real) powi 1024 \<le> rounded p k" by linarith
        with assms(3) big show False by linarith
      qed
    qed
    with mlt elow d ev show ?thesis unfolding even_double_def by blast
  qed
qed

lemma rounded_tie:
  assumes "2 powi k \<le> p" and "p < 2 powi (k + 1)" and "rounded p k < 2 ^ 1024"
    and "is_double d'" and "d' \<noteq> rounded p k" and "\<bar>p - d'\<bar> = \<bar>p - rounded p k\<bar>"
  shows "even_double (rounded p k)"
proof -
  define e where "e = max (k - 52) (- 1074)"
  define x where "x = p / 2 powi e"
  define m where "m = round_half_even x"
  have pos: "0 < (2::real) powi e" by (rule two_powi_pos)
  have d: "rounded p k = real_of_int m * 2 powi e"
    by (simp add: rounded_def m_def x_def e_def)
  have dist: "\<bar>p - rounded p k\<bar> = \<bar>x - real_of_int m\<bar> * 2 powi e"
    unfolding d x_def by (rule rounded_dist)
  from assms(4) obtain m' e' where m': "\<bar>m'\<bar> < 2 ^ 53" and e': "- 1074 \<le> e'" "e' \<le> 971"
    and d': "d' = real_of_int m' * 2 powi e'"
    by (auto simp: is_double_def)
  have "even m"
  proof (cases "e \<le> e'")
    case True
    define j where "j = m' * 2 ^ nat (e' - e)"
    have "(2::real) powi e' = 2 powi ((e' - e) + e)" by simp
    also have "\<dots> = 2 powi (e' - e) * 2 powi e" by (simp only: two_powi_split)
    also have "(2::real) powi (e' - e) = 2 ^ nat (e' - e)"
      using True by (simp add: power_int_nonneg_exp)
    finally have dj: "d' = real_of_int j * 2 powi e"
      by (simp add: d' j_def)
    then have "\<bar>p - d'\<bar> = \<bar>x - real_of_int j\<bar> * 2 powi e"
      unfolding x_def by (simp only: rounded_dist)
    with assms(6) dist have "\<bar>x - real_of_int j\<bar> * 2 powi e = \<bar>x - real_of_int m\<bar> * 2 powi e"
      by simp
    with pos have eq: "\<bar>x - real_of_int j\<bar> = \<bar>x - real_of_int m\<bar>" by simp
    from assms(5) dj d have "j \<noteq> m" by auto
    with eq show ?thesis unfolding m_def by (intro round_half_even_other [of x j]) simp_all
  next
    case False
    with e' have ek: "e = k - 52" and norm: "- 1074 \<le> k - 52"
      by (auto simp: e_def)
    have grid: "(2::real) powi k = 2 ^ 52 * 2 powi e"
    proof -
      have "(2::real) powi k = 2 powi (52 + e)" by (simp add: ek)
      also have "\<dots> = 2 ^ 52 * 2 powi e" using two_powi_shift [of 52 e] by simp
      finally show ?thesis .
    qed
    have "\<bar>d'\<bar> = real_of_int \<bar>m'\<bar> * 2 powi e'"
      using two_powi_pos [of e'] by (simp add: d' abs_mult)
    also have "\<dots> < 2 ^ 53 * 2 powi e'"
    proof -
      from m' have "real_of_int \<bar>m'\<bar> < real_of_int (2 ^ 53)"
        by (simp only: of_int_less_iff)
      then show ?thesis using two_powi_pos [of e'] by (simp add: mult_strict_right_mono)
    qed
    also have "\<dots> = 2 powi (53 + e')" using two_powi_shift [of 53 e'] by simp
    also have "\<dots> \<le> 2 powi k"
      using False by (simp add: two_powi_le ek)
    finally have below: "\<bar>d'\<bar> < 2 powi k" .
    have "\<bar>x - real_of_int m\<bar> \<le> \<bar>x - real_of_int (2 ^ 52)\<bar>"
      unfolding m_def by (rule round_half_even_nearest)
    then have "\<bar>x - real_of_int m\<bar> * 2 powi e \<le> \<bar>x - real_of_int (2 ^ 52)\<bar> * 2 powi e"
      using pos by (simp add: mult_right_mono)
    also have "\<dots> = \<bar>p - real_of_int (2 ^ 52) * 2 powi e\<bar>"
      unfolding x_def by (simp only: rounded_dist)
    also have "\<dots> = \<bar>p - 2 powi k\<bar>" by (simp add: grid)
    also have "\<dots> < \<bar>p - d'\<bar>"
      using below assms(1) by linarith
    finally have "\<bar>p - rounded p k\<bar> < \<bar>p - d'\<bar>" by (simp add: dist)
    with assms(6) show ?thesis by simp
  qed
  then have "even (round_half_even (p / 2 powi (max (k - 52) (- 1074))))"
    by (simp add: m_def x_def e_def)
  with assms(1-3) show ?thesis by (rule rounded_even_double)
qed

text \<open>The rounded quotient reaches \<open>2 ^ 1024\<close> from the quotient \<open>2 ^ 1024 - 2 ^ 970\<close> on.\<close>

lemma rounded_overflow:
  assumes "2 powi k \<le> p" and "p < 2 powi (k + 1)"
  shows "2 ^ 1024 \<le> rounded p k \<longleftrightarrow> 2 ^ 1024 - 2 ^ 970 \<le> p"
proof -
  define e where "e = max (k - 52) (- 1074)"
  define m where "m = round_half_even (p / 2 powi e)"
  have pos: "0 < (2::real) powi e" by (rule two_powi_pos)
  have ppos: "0 < p" using assms(1) two_powi_pos [of k] by linarith
  have d: "rounded p k = real_of_int m * 2 powi e"
    by (simp add: rounded_def m_def e_def)
  from rounded_mantissa [OF ppos assms(2)]
  have m0: "0 \<le> m" and m53: "m \<le> 2 ^ 53" by (simp_all add: m_def e_def)
  have big: "(2::real) ^ 1024 = 2 powi 1024" by simp
  consider "1024 \<le> k" | "k = 1023" | "k \<le> 1022" by linarith
  then show ?thesis
  proof cases
    case 1
    then have ek: "e = k - 52" and norm: "- 1074 \<le> k - 52" by (auto simp: e_def)
    from rounded_normal_mantissa [OF assms(1) norm]
    have "2 ^ 52 \<le> m" by (simp add: m_def ek)
    then have "real_of_int (2 ^ 52) \<le> real_of_int m" by (simp only: of_int_le_iff)
    then have "2 ^ 52 * 2 powi e \<le> rounded p k"
      using pos by (simp add: d mult_right_mono)
    moreover have "(2::real) ^ 52 * 2 powi e = 2 powi (52 + e)"
      using two_powi_shift [of 52 e] by simp
    moreover have "(2::real) powi 1024 \<le> 2 powi (52 + e)"
    proof -
      from 1 have "1024 \<le> 52 + e" by (simp add: ek)
      then show ?thesis by (simp only: two_powi_le)
    qed
    ultimately have l: "2 ^ 1024 \<le> rounded p k" using big by linarith
    have "(2::real) powi 1024 \<le> 2 powi k" using 1 by (simp only: two_powi_le)
    with assms(1) big have "(2::real) ^ 1024 \<le> p" by linarith
    then have r: "2 ^ 1024 - 2 ^ 970 \<le> p" by simp
    from l r show ?thesis by simp
  next
    case 2
    then have e971: "e = 971" by (simp add: e_def)
    have p971: "(2::real) powi 971 = 2 ^ 971" by simp
    have l: "2 ^ 1024 \<le> rounded p k \<longleftrightarrow> 2 ^ 53 \<le> m"
    proof -
      have "(2::real) ^ 1024 = real_of_int (2 ^ 53) * 2 ^ 971" by simp
      then have "2 ^ 1024 \<le> rounded p k \<longleftrightarrow> real_of_int (2 ^ 53) * 2 ^ 971 \<le> real_of_int m * 2 ^ 971"
        by (simp only: d e971 p971)
      also have "\<dots> \<longleftrightarrow> real_of_int (2 ^ 53) \<le> real_of_int m"
        by (simp only: mult_le_cancel_right) simp
      also have "\<dots> \<longleftrightarrow> 2 ^ 53 \<le> m" by (simp only: of_int_le_iff)
      finally show ?thesis .
    qed
    have r: "2 ^ 1024 - 2 ^ 970 \<le> p \<longleftrightarrow> real_of_int (2 ^ 53) - 1/2 \<le> p / 2 powi e"
    proof -
      have "(2::real) ^ 1024 - 2 ^ 970 = (real_of_int (2 ^ 53) - 1/2) * 2 ^ 971" by simp
      then show ?thesis by (simp only: e971 p971) (simp add: field_simps)
    qed
    show ?thesis
    proof
      assume "2 ^ 1024 \<le> rounded p k"
      with l have a: "2 ^ 53 \<le> m" by simp
      show "2 ^ 1024 - 2 ^ 970 \<le> p"
      proof (rule ccontr)
        assume "\<not> 2 ^ 1024 - 2 ^ 970 \<le> p"
        with r have "p / 2 powi e < real_of_int (2 ^ 53) - 1/2" by simp
        then have "m \<le> 2 ^ 53 - 1" unfolding m_def by (rule round_half_even_below_half)
        with a show False by simp
      qed
    next
      assume "2 ^ 1024 - 2 ^ 970 \<le> p"
      with r have "real_of_int (2 ^ 53) - 1/2 \<le> p / 2 powi e" by simp
      moreover have "even (2 ^ 53 :: int)" by simp
      ultimately have "2 ^ 53 \<le> m" unfolding m_def by (rule round_half_even_above_half [rotated])
      with l show "2 ^ 1024 \<le> rounded p k" by simp
    qed
  next
    case 3
    have "(2::real) powi (k + 1) \<le> 2 powi 1023"
    proof -
      from 3 have "k + 1 \<le> 1023" by simp
      then show ?thesis by (simp only: two_powi_le)
    qed
    with assms(2) have "p < 2 powi 1023" by linarith
    also have "(2::real) powi 1023 = 2 ^ 1023" by simp
    finally have "p < 2 ^ 1023" .
    then have r: "\<not> 2 ^ 1024 - 2 ^ 970 \<le> p" by simp
    have ele: "e \<le> 970" using 3 by (simp add: e_def)
    from m53 have "real_of_int m \<le> real_of_int (2 ^ 53)" by (simp only: of_int_le_iff)
    then have "rounded p k \<le> 2 ^ 53 * 2 powi e"
      using pos by (simp add: d mult_right_mono)
    also have "\<dots> = 2 powi (53 + e)" using two_powi_shift [of 53 e] by simp
    also have "\<dots> \<le> 2 powi 1023"
    proof -
      from ele have "53 + e \<le> 1023" by simp
      then show ?thesis by (simp only: two_powi_le)
    qed
    also have "(2::real) powi 1023 = 2 ^ 1023" by simp
    finally have "rounded p k \<le> 2 ^ 1023" .
    then have l: "\<not> 2 ^ 1024 \<le> rounded p k" by simp
    from l r show ?thesis by simp
  qed
qed

text \<open>
  Hence the division by a positive int: it raises \<^verbatim>\<open>OverflowError\<close> from that quotient on, and
  below it gives the rounding of the quotient.
\<close>

lemma rounded_nearest_double:
  assumes "2 powi k \<le> p" and "p < 2 powi (k + 1)" and "rounded p k < 2 ^ 1024"
  shows "nearest_double p (rounded p k)"
  unfolding nearest_double_def
proof (intro conjI allI impI)
  show "is_double (rounded p k)" using assms by (rule rounded_is_double)
next
  fix d' assume "is_double d'"
  with assms(1,2) show "\<bar>p - rounded p k\<bar> \<le> \<bar>p - d'\<bar>" by (rule rounded_nearest)
next
  assume "\<exists>d'. is_double d' \<and> d' \<noteq> rounded p k \<and> \<bar>p - d'\<bar> = \<bar>p - rounded p k\<bar>"
  then obtain d' where "is_double d'" "d' \<noteq> rounded p k" "\<bar>p - d'\<bar> = \<bar>p - rounded p k\<bar>"
    by blast
  with assms show "even_double (rounded p k)" by (rule rounded_tie)
qed

lemma is_double_minus: "is_double (- d) \<longleftrightarrow> is_double d"
proof -
  have "is_double (- x)" if "is_double x" for x
  proof -
    from that obtain m e where "\<bar>m\<bar> < 2 ^ 53" "- 1074 \<le> e" "e \<le> 971"
      "x = real_of_int m * 2 powi e"
      by (auto simp: is_double_def)
    then have "\<bar>- m\<bar> < 2 ^ 53" "- x = real_of_int (- m) * 2 powi e" by simp_all
    with \<open>- 1074 \<le> e\<close> \<open>e \<le> 971\<close> show ?thesis unfolding is_double_def by blast
  qed
  from this [of d] this [of "- d"] show ?thesis by auto
qed

lemma even_double_minus: "even_double d \<Longrightarrow> even_double (- d)"
proof -
  assume "even_double d"
  then obtain m e where "even m" "\<bar>m\<bar> < 2 ^ 53" "- 1074 \<le> e" "e \<le> 971"
    "d = real_of_int m * 2 powi e"
    by (auto simp: even_double_def)
  then have "even (- m)" "\<bar>- m\<bar> < 2 ^ 53" "- d = real_of_int (- m) * 2 powi e" by simp_all
  with \<open>- 1074 \<le> e\<close> \<open>e \<le> 971\<close> show ?thesis unfolding even_double_def by blast
qed

lemma nearest_double_minus:
  assumes "nearest_double q d"
  shows "nearest_double (- q) (- d)"
  unfolding nearest_double_def
proof (intro conjI allI impI)
  from assms show "is_double (- d)" by (simp add: nearest_double_def is_double_minus)
next
  fix d' assume "is_double d'"
  then have "is_double (- d')" by (simp add: is_double_minus)
  with assms have "\<bar>q - d\<bar> \<le> \<bar>q - (- d')\<bar>" unfolding nearest_double_def by blast
  then show "\<bar>- q - - d\<bar> \<le> \<bar>- q - d'\<bar>" by linarith
next
  assume "\<exists>d'. is_double d' \<and> d' \<noteq> - d \<and> \<bar>- q - d'\<bar> = \<bar>- q - - d\<bar>"
  then obtain d' where d': "is_double d'" "d' \<noteq> - d" "\<bar>- q - d'\<bar> = \<bar>- q - - d\<bar>" by blast
  then have "is_double (- d')" "- d' \<noteq> d" "\<bar>q - (- d')\<bar> = \<bar>q - d\<bar>"
    by (simp add: is_double_minus, linarith, linarith)
  with assms have "even_double d" unfolding nearest_double_def by blast
  then show "even_double (- d)" by (rule even_double_minus)
qed

lemma nearest_double_zero: "nearest_double 0 0"
proof -
  have "(0::real) = real_of_int 0 * 2 powi 0" by simp
  moreover have "even (0::int)" "\<bar>0::int\<bar> < 2 ^ 53" "- 1074 \<le> (0::int)" "(0::int) \<le> 971"
    by simp_all
  ultimately have "is_double 0" "even_double 0"
    unfolding is_double_def even_double_def by blast+
  then show ?thesis by (simp add: nearest_double_def)
qed

lemma nearest_double_exact:
  assumes "nearest_double q d" and "is_double q"
  shows "d = q"
proof -
  from assms have "\<bar>q - d\<bar> \<le> \<bar>q - q\<bar>" unfolding nearest_double_def by blast
  then show ?thesis by simp
qed

lemma py_truediv_rounded:
  assumes "0 < b" and "a \<noteq> 0"
  shows "py_truediv a b =
           (if 2 ^ 1024 \<le> rounded \<bar>real_of_int a / real_of_int b\<bar> (floor_log2 \<bar>a\<bar> b)
            then Inl OverflowError
            else Inr (Finite (if 0 < a
                              then rounded \<bar>real_of_int a / real_of_int b\<bar> (floor_log2 \<bar>a\<bar> b)
                              else - rounded \<bar>real_of_int a / real_of_int b\<bar> (floor_log2 \<bar>a\<bar> b))))"
proof -
  from assms(1) have b: "b \<noteq> 0" "\<bar>b\<bar> = b" "\<not> b < 0" by simp_all
  from assms(2) have a: "((a < 0) = False) = (0 < a)" by auto
  show ?thesis
    unfolding py_truediv_def rounded_def Let_def
    by (simp only: b a assms(2) if_False)
qed

lemma py_truediv_spec:
  assumes "0 < b"
  shows "(2 ^ 1024 - 2 ^ 970 \<le> \<bar>real_of_int a / real_of_int b\<bar> \<longrightarrow>
            py_truediv a b = Inl OverflowError)
       \<and> (\<bar>real_of_int a / real_of_int b\<bar> < 2 ^ 1024 - 2 ^ 970 \<longrightarrow>
            (\<exists>d. nearest_double (real_of_int a / real_of_int b) d \<and>
                 py_truediv a b = Inr (Finite d)))"
proof (cases "a = 0")
  case True
  have "py_truediv 0 b = Inr (Finite 0)" using assms by (simp add: py_truediv_def)
  moreover have "\<not> (2::real) ^ 1024 - 2 ^ 970 \<le> 0" by simp
  ultimately show ?thesis using nearest_double_zero by (auto simp: True)
next
  case False
  define p where "p = \<bar>real_of_int a / real_of_int b\<bar>"
  define k where "k = floor_log2 \<bar>a\<bar> b"
  have apos: "0 < \<bar>a\<bar>" using False by simp
  have pq: "p = real_of_int \<bar>a\<bar> / real_of_int b" using assms by (simp add: p_def)
  from floor_log2_bounds [OF apos assms]
  have lo: "2 powi k \<le> p" and hi: "p < 2 powi (k + 1)" by (simp_all add: pq k_def)
  have ov: "2 ^ 1024 \<le> rounded p k \<longleftrightarrow> 2 ^ 1024 - 2 ^ 970 \<le> p"
    using lo hi by (rule rounded_overflow)
  have tr: "py_truediv a b =
              (if 2 ^ 1024 \<le> rounded p k then Inl OverflowError
               else Inr (Finite (if 0 < a then rounded p k else - rounded p k)))"
    unfolding p_def k_def using assms False by (rule py_truediv_rounded)
  have first: "2 ^ 1024 - 2 ^ 970 \<le> p \<longrightarrow> py_truediv a b = Inl OverflowError"
    using ov by (simp only: tr) simp
  have second: "\<exists>d. nearest_double (real_of_int a / real_of_int b) d \<and>
                     py_truediv a b = Inr (Finite d)"
    if small: "p < 2 ^ 1024 - 2 ^ 970"
  proof -
    from small ov have fin: "rounded p k < 2 ^ 1024" by linarith
    from lo hi fin have near: "nearest_double p (rounded p k)" by (rule rounded_nearest_double)
    from fin have val: "py_truediv a b = Inr (Finite (if 0 < a then rounded p k else - rounded p k))"
      by (simp only: tr) simp
    show ?thesis
    proof (cases "0 < a")
      case True
      with assms have "real_of_int a / real_of_int b = p" by (simp add: p_def)
      with near val True show ?thesis by auto
    next
      case neg: False
      with False assms have "real_of_int a / real_of_int b = - p"
        by (simp add: p_def abs_if field_simps)
      moreover from near have "nearest_double (- p) (- rounded p k)" by (rule nearest_double_minus)
      ultimately show ?thesis using val neg by auto
    qed
  qed
  from first second show ?thesis unfolding p_def by blast
qed

text \<open>
  \<^verbatim>\<open>compute_overall_status\<close> in terms of the cases of the reference: without a division
  when there is no status or no evaluation, and otherwise through the division.
\<close>

lemma is_double_bound:
  assumes "is_double d"
  shows "\<bar>d\<bar> < 2 ^ 1024 - 2 ^ 970"
proof -
  from assms obtain m e where m: "\<bar>m\<bar> < 2 ^ 53" and e: "e \<le> 971"
    and d: "d = real_of_int m * 2 powi e"
    by (auto simp: is_double_def)
  have "\<bar>d\<bar> = real_of_int \<bar>m\<bar> * 2 powi e"
    using two_powi_pos [of e] by (simp add: d abs_mult)
  also have "\<dots> \<le> real_of_int \<bar>m\<bar> * 2 powi 971"
  proof -
    from e have "(2::real) powi e \<le> 2 powi 971" by (simp only: two_powi_le)
    then show ?thesis by (simp add: mult_left_mono)
  qed
  also have "\<dots> \<le> real_of_int (2 ^ 53 - 1) * 2 powi 971"
  proof -
    from m have "\<bar>m\<bar> \<le> 2 ^ 53 - 1" by simp
    then have "real_of_int \<bar>m\<bar> \<le> real_of_int (2 ^ 53 - 1)" by (simp only: of_int_le_iff)
    then show ?thesis using two_powi_pos [of 971] by (simp only: mult_right_mono)
  qed
  also have "\<dots> < 2 ^ 1024 - 2 ^ 970" by simp
  finally show ?thesis .
qed

lemma float_gt_exceeds: "float_gt (Finite d) threshold = spec_exceeds d threshold"
  by (cases threshold) (simp_all add: float_gt_def spec_exceeds_def)

lemma spec_overall_eq:
  "spec_overall too_many_missing statuses =
     (if statuses = [] then ''red''
      else if too_many_missing
      then (if PStr ''red'' \<in> set statuses then ''red'' else ''yellow'')
      else if PStr ''red'' \<in> set statuses then ''red''
      else if PStr ''yellow'' \<in> set statuses then ''yellow''
      else ''green'')"
  by (auto simp: spec_overall_def Let_def list_ex_iff)

lemma compute_overall_status_no_division:
  assumes "statuses = [] \<or> total_evals \<le> 0"
  shows "compute_overall_status self statuses missing_evals total_evals =
           Inr (spec_overall False statuses)"
  using assms by (auto simp: compute_overall_status_def spec_overall_eq)

lemma compute_overall_status_division:
  assumes "statuses \<noteq> []" and "0 < total_evals"
  shows "compute_overall_status self statuses missing_evals total_evals =
           (case py_truediv missing_evals total_evals of
              Inl e \<Rightarrow> Inl e
            | Inr ratio \<Rightarrow>
                Inr (spec_overall (float_gt ratio (missing_eval_threshold self)) statuses))"
  using assms
  by (auto simp: compute_overall_status_def spec_overall_eq split: sum.splits)


section \<open>The scorer's functions against the specification\<close>

text \<open>
  Claim C1.  On every row whose field \<^verbatim>\<open>toxicity_is_toxic\<close> is true,
  \<^verbatim>\<open>compute_row_status\<close> returns \<^verbatim>\<open>red\<close>, whatever the per-metric statuses of the row
  are: the statuses are not combined at all.
\<close>

theorem compute_row_status_toxic_red:
  "map_of r ''toxicity_is_toxic'' = Some (PBool True) \<Longrightarrow>
   compute_row_status self r = Inr ''red''"
  by (simp add: compute_row_status_def map_raising_getitem)

theorem compute_row_status_toxic_red_witness:
  "map_of [(''relevancy_status'', PStr ''green''), (''rouge_status'', PStr ''green''),
           (''toxicity_is_toxic'', PBool True)] ''toxicity_is_toxic'' = Some (PBool True)
   \<and> compute_row_status default_scorer
        [(''relevancy_status'', PStr ''green''), (''rouge_status'', PStr ''green''),
         (''toxicity_is_toxic'', PBool True)] = Inr ''red''"
  using compute_row_status_toxic_red
    [of "[(''relevancy_status'', PStr ''green''), (''rouge_status'', PStr ''green''),
          (''toxicity_is_toxic'', PBool True)]" default_scorer]
  by simp

text \<open>
  Claim C3, as stated, fails at two kinds of input.  For a score that is NaN under a
  metric other than toxicity no case of the reference applies (NaN is neither below
  \<open>low\<close>, nor between the thresholds, nor at least \<open>high\<close>), while \<^verbatim>\<open>score_to_status\<close> ends in
  an unguarded \<^verbatim>\<open>else\<close> and returns \<^verbatim>\<open>green\<close>.  And for thresholds with \<open>high\<close> below \<open>low\<close>, which
  the constructor accepts and the command line builds from a relevancy threshold of
  0.3, a score of 0.35 is below \<open>low\<close> and at least \<open>high\<close>: the reference gives \<^verbatim>\<open>green\<close> by
  its third case, and \<^verbatim>\<open>score_to_status\<close> returns \<^verbatim>\<open>red\<close>.
\<close>

theorem score_to_status_differs_from_spec:
  "score_to_status default_scorer (PFloat NaN) ''relevancy'' = Inr ''green''
   \<and> \<not> spec_score_to_status default_scorer NaN ''relevancy'' ''green''
   \<and> score_to_status
        (default_scorer\<lparr>other_thresholds := (Finite (4/10), Finite (3/10))\<rparr>)
        (PFloat (Finite (35/100))) ''relevancy'' = Inr ''red''
   \<and> spec_score_to_status
        (default_scorer\<lparr>other_thresholds := (Finite (4/10), Finite (3/10))\<rparr>)
        (Finite (35/100)) ''relevancy'' ''green''"
  by (simp add: score_to_status_def spec_score_to_status_def py_lt_def default_scorer_def
      float_le_def float_ge_def)

text \<open>
  Claim C3, amended.  For every score that is a number (a float, an int or a bool)
  and every metric name, \<^verbatim>\<open>score_to_status\<close> returns the one status that the reference
  definition gives: for the metric \<^verbatim>\<open>toxicity\<close>, on every score, \<^verbatim>\<open>green\<close> if the score is at
  least 1.0 and \<^verbatim>\<open>red\<close> otherwise, never \<^verbatim>\<open>yellow\<close>; for every other metric name, on every
  score that is not NaN and with thresholds \<open>low \<le> high\<close> (neither of them NaN), \<^verbatim>\<open>red\<close>
  below \<open>low\<close>, \<^verbatim>\<open>yellow\<close> from \<open>low\<close> up to but excluding \<open>high\<close>, and \<^verbatim>\<open>green\<close> from \<open>high\<close> on.
\<close>

theorem score_to_status_eq_spec_on_numbers:
  assumes "as_float v = Some score"
    and "metric_name \<noteq> ''toxicity'' \<Longrightarrow> score \<noteq> NaN"
    and "metric_name \<noteq> ''toxicity'' \<Longrightarrow>
         float_le
           (fst (if metric_name = ''rouge'' then rouge_thresholds self
                 else other_thresholds self))
           (snd (if metric_name = ''rouge'' then rouge_thresholds self
                 else other_thresholds self))"
  shows "(\<forall>status. spec_score_to_status self score metric_name status \<longleftrightarrow>
                   score_to_status self v metric_name = Inr status)
       \<and> (metric_name = ''toxicity'' \<longrightarrow> score_to_status self v metric_name \<noteq> Inr ''yellow'')"
proof (cases "metric_name = ''toxicity''")
  case True
  with assms(1) show ?thesis
    by (auto simp: score_to_status_def spec_score_to_status_def py_ge_def)
next
  case False
  obtain low high where lh:
    "(if metric_name = ''rouge'' then rouge_thresholds self else other_thresholds self)
       = (low, high)"
    by (cases "if metric_name = ''rouge'' then rouge_thresholds self
               else other_thresholds self")
  from assms(2) False have s: "score \<noteq> NaN" by simp
  from assms(3) False lh have le: "float_le low high" by simp
  have a: "float_lt score low \<longleftrightarrow> \<not> float_le low score"
    using float_not_lt [of score low] s le by (auto simp: float_le_def)
  have b: "float_lt score high \<longleftrightarrow> \<not> float_ge score high"
    using float_not_lt [of score high] s le by (auto simp: float_le_def float_ge_def)
  have c: "float_lt score low \<Longrightarrow> float_lt score high"
    using s le by (cases score; cases low; cases high) (auto simp: float_le_def)
  show ?thesis
    using False lh a b c assms(1)
    by (auto simp: score_to_status_def spec_score_to_status_def py_lt_def)
qed

theorem score_to_status_eq_spec_on_numbers_witness:
  "as_float (PFloat (Finite (1/2))) = Some (Finite (1/2))
   \<and> Finite (1/2) \<noteq> NaN
   \<and> float_le (fst (rouge_thresholds default_scorer)) (snd (rouge_thresholds default_scorer))
   \<and> score_to_status default_scorer (PFloat (Finite (1/2))) ''rouge'' = Inr ''green''
   \<and> spec_score_to_status default_scorer (Finite (1/2)) ''rouge'' ''green''
   \<and> \<not> spec_score_to_status default_scorer (Finite (1/2)) ''rouge'' ''yellow''
   \<and> \<not> spec_score_to_status default_scorer (Finite (1/2)) ''rouge'' ''red''
   \<and> as_float (PInt 0) = Some (Finite 0)
   \<and> float_le (fst (other_thresholds default_scorer)) (snd (other_thresholds default_scorer))
   \<and> score_to_status default_scorer (PInt 0) ''relevancy'' = Inr ''red''
   \<and> spec_score_to_status default_scorer (Finite 0) ''relevancy'' ''red''
   \<and> score_to_status default_scorer (PFloat NaN) ''toxicity'' = Inr ''red''
   \<and> spec_score_to_status default_scorer NaN ''toxicity'' ''red''"
proof -
  have direct:
    "as_float (PFloat (Finite (1/2))) = Some (Finite (1/2))
     \<and> Finite (1/2) \<noteq> NaN
     \<and> float_le (fst (rouge_thresholds default_scorer)) (snd (rouge_thresholds default_scorer))
     \<and> score_to_status default_scorer (PFloat (Finite (1/2))) ''rouge'' = Inr ''green''
     \<and> score_to_status default_scorer (PFloat (Finite (1/2))) ''rouge'' \<noteq> Inr ''yellow''
     \<and> score_to_status default_scorer (PFloat (Finite (1/2))) ''rouge'' \<noteq> Inr ''red''
     \<and> as_float (PInt 0) = Some (Finite 0)
     \<and> Finite 0 \<noteq> NaN
     \<and> float_le (fst (other_thresholds default_scorer)) (snd (other_thresholds default_scorer))
     \<and> score_to_status default_scorer (PInt 0) ''relevancy'' = Inr ''red''
     \<and> as_float (PFloat NaN) = Some NaN
     \<and> score_to_status default_scorer (PFloat NaN) ''toxicity'' = Inr ''red''"
    by (simp add: score_to_status_def py_lt_def py_ge_def default_scorer_def
        float_le_def float_ge_def)
  have rouge: "\<forall>status. spec_score_to_status default_scorer (Finite (1/2)) ''rouge'' status
                 \<longleftrightarrow> score_to_status default_scorer (PFloat (Finite (1/2))) ''rouge''
                      = Inr status"
    using score_to_status_eq_spec_on_numbers
            [of "PFloat (Finite (1/2))" "Finite (1/2)" "''rouge''" default_scorer] direct
    by simp
  have relevancy: "\<forall>status. spec_score_to_status default_scorer (Finite 0) ''relevancy'' status
                 \<longleftrightarrow> score_to_status default_scorer (PInt 0) ''relevancy'' = Inr status"
    using score_to_status_eq_spec_on_numbers
            [of "PInt 0" "Finite 0" "''relevancy''" default_scorer] direct
    by simp
  have toxicity: "\<forall>status. spec_score_to_status default_scorer NaN ''toxicity'' status
                 \<longleftrightarrow> score_to_status default_scorer (PFloat NaN) ''toxicity'' = Inr status"
    using score_to_status_eq_spec_on_numbers
            [of "PFloat NaN" NaN "''toxicity''" default_scorer]
    by simp
  from direct rouge relevancy toxicity show ?thesis by blast
qed

section \<open>The overall status and the ratio of missing evaluations\<close>

text \<open>
  Claim C2, as stated, fails at two kinds of input.  The code compares the threshold
  with the double that the division gives, not with the quotient.  With the threshold
  0.3, which is the double \<open>5404319552844595 / 2 ^ 54\<close> just below three tenths, and 3
  evaluations missing out of 10, the quotient exceeds the threshold and the reference
  gives \<^verbatim>\<open>yellow\<close> for one \<^verbatim>\<open>green\<close> status; the division gives that same double, which does
  not exceed the threshold, and \<^verbatim>\<open>compute_overall_status\<close> returns \<^verbatim>\<open>green\<close>.  And with
  \<open>2 ^ 1024\<close> evaluations missing out of 1 the reference gives \<^verbatim>\<open>yellow\<close>, while the division
  raises \<^verbatim>\<open>OverflowError\<close> and \<^verbatim>\<open>compute_overall_status\<close> returns nothing.
\<close>

theorem compute_overall_status_differs_from_spec:
  "compute_overall_status
     (default_scorer\<lparr>missing_eval_threshold := Finite (5404319552844595 / 18014398509481984)\<rparr>)
     [PStr ''green''] 3 10 = Inr ''green''
   \<and> spec_compute_overall_status
     (default_scorer\<lparr>missing_eval_threshold := Finite (5404319552844595 / 18014398509481984)\<rparr>)
     [PStr ''green''] 3 10 = ''yellow''
   \<and> compute_overall_status default_scorer [PStr ''green''] (2 ^ 1024) 1 = Inl OverflowError
   \<and> spec_compute_overall_status default_scorer [PStr ''green''] (2 ^ 1024) 1 = ''yellow''"
  by (simp add: compute_overall_status_def spec_compute_overall_status_def spec_overall_def
      spec_exceeds_def default_scorer_def float_gt_def
      py_truediv_def floor_log2_def round_half_even_def compute_bitlen Let_def
      power_int_minus)

text \<open>
  Claim C2, amended.  For every scorer, every list of statuses and every two ints,
  \<^verbatim>\<open>compute_overall_status\<close> is given by the cases of the reference definition with the
  rounded ratio in the place of the ratio.  With no status, or with \<^verbatim>\<open>total_evals\<close> not
  above zero, nothing is divided: the result is \<^verbatim>\<open>red\<close> for no status and otherwise \<^verbatim>\<open>red\<close> if
  any status is \<^verbatim>\<open>red\<close>, else \<^verbatim>\<open>yellow\<close> if any is \<^verbatim>\<open>yellow\<close>, else \<^verbatim>\<open>green\<close>.  With a status and
  \<^verbatim>\<open>total_evals\<close> above zero, \<^verbatim>\<open>OverflowError\<close> is raised when the magnitude of the quotient
  \<^verbatim>\<open>missing_evals / total_evals\<close> is \<open>2 ^ 1024 - 2 ^ 970\<close> or more; below that the quotient is
  rounded to the nearest double, to the one with the even significand at a tie, and
  the result is that of the reference with \<open>rounded quotient > threshold\<close> as the condition
  of its second case: \<^verbatim>\<open>red\<close> if any status is \<^verbatim>\<open>red\<close> and \<^verbatim>\<open>yellow\<close> otherwise when the rounded
  quotient exceeds the threshold, hence never \<^verbatim>\<open>green\<close> there, and the third case
  otherwise.  Whenever the quotient is itself a double, the result is that of the
  reference definition as the claim states it.
\<close>

theorem compute_overall_status_rounds_the_ratio:
  "(statuses = [] \<or> total_evals \<le> 0 \<longrightarrow>
      compute_overall_status self statuses missing_evals total_evals =
        Inr (spec_overall False statuses))
   \<and> (statuses \<noteq> [] \<and> 0 < total_evals \<and>
       2 ^ 1024 - 2 ^ 970 \<le> \<bar>real_of_int missing_evals / real_of_int total_evals\<bar> \<longrightarrow>
      compute_overall_status self statuses missing_evals total_evals = Inl OverflowError)
   \<and> (statuses \<noteq> [] \<and> 0 < total_evals \<and>
       \<bar>real_of_int missing_evals / real_of_int total_evals\<bar> < 2 ^ 1024 - 2 ^ 970 \<longrightarrow>
      (\<exists>d. nearest_double (real_of_int missing_evals / real_of_int total_evals) d \<and>
           compute_overall_status self statuses missing_evals total_evals =
             Inr (spec_overall (spec_exceeds d (missing_eval_threshold self)) statuses) \<and>
           (spec_exceeds d (missing_eval_threshold self) \<longrightarrow>
              compute_overall_status self statuses missing_evals total_evals
                \<noteq> Inr ''green'')))
   \<and> (is_double (real_of_int missing_evals / real_of_int total_evals) \<longrightarrow>
      compute_overall_status self statuses missing_evals total_evals =
        Inr (spec_compute_overall_status self statuses missing_evals total_evals))"
proof -
  let ?q = "real_of_int missing_evals / real_of_int total_evals"
  let ?c = "compute_overall_status self statuses missing_evals total_evals"
  let ?thr = "missing_eval_threshold self"
  have none: "?c = Inr (spec_overall False statuses)" if "statuses = [] \<or> total_evals \<le> 0"
    using that by (rule compute_overall_status_no_division)
  have over: "?c = Inl OverflowError"
    if "statuses \<noteq> []" "0 < total_evals" "2 ^ 1024 - 2 ^ 970 \<le> \<bar>?q\<bar>"
  proof -
    from py_truediv_spec [OF that(2), of missing_evals] that(3)
    have "py_truediv missing_evals total_evals = Inl OverflowError" by blast
    then show ?thesis by (simp add: compute_overall_status_division [OF that(1,2)])
  qed
  have near: "\<exists>d. nearest_double ?q d \<and> ?c = Inr (spec_overall (spec_exceeds d ?thr) statuses)
                 \<and> (spec_exceeds d ?thr \<longrightarrow> ?c \<noteq> Inr ''green'')"
    if "statuses \<noteq> []" "0 < total_evals" "\<bar>?q\<bar> < 2 ^ 1024 - 2 ^ 970"
  proof -
    from py_truediv_spec [OF that(2), of missing_evals] that(3)
    obtain d where d: "nearest_double ?q d"
      and v: "py_truediv missing_evals total_evals = Inr (Finite d)"
      by blast
    from v have c: "?c = Inr (spec_overall (spec_exceeds d ?thr) statuses)"
      by (simp add: compute_overall_status_division [OF that(1,2)] float_gt_exceeds)
    have "spec_overall True statuses \<noteq> ''green''" by (simp add: spec_overall_eq)
    with c have "spec_exceeds d ?thr \<longrightarrow> ?c \<noteq> Inr ''green''" by auto
    with d c show ?thesis by blast
  qed
  have exact: "?c = Inr (spec_compute_overall_status self statuses missing_evals total_evals)"
    if dbl: "is_double ?q"
  proof (cases "statuses = [] \<or> total_evals \<le> 0")
    case True
    then have "spec_compute_overall_status self statuses missing_evals total_evals =
                 spec_overall False statuses"
      by (auto simp: spec_compute_overall_status_def spec_overall_eq)
    with none [OF True] show ?thesis by simp
  next
    case False
    then have s: "statuses \<noteq> []" and t: "0 < total_evals" by simp_all
    from dbl have "\<bar>?q\<bar> < 2 ^ 1024 - 2 ^ 970" by (rule is_double_bound)
    from near [OF s t this] obtain d where d: "nearest_double ?q d"
      and c: "?c = Inr (spec_overall (spec_exceeds d ?thr) statuses)"
      by blast
    from d dbl have "d = ?q" by (rule nearest_double_exact)
    with c t show ?thesis by (simp add: spec_compute_overall_status_def)
  qed
  from none over near exact show ?thesis by blast
qed

theorem compute_overall_status_rounds_the_ratio_witness:
  "compute_overall_status default_scorer [] 1 10 = Inr ''red''
   \<and> compute_overall_status default_scorer [PStr ''yellow'', PStr ''green''] 5 0 = Inr ''yellow''
   \<and> 2 ^ 1024 - 2 ^ 970 \<le> \<bar>real_of_int (2 ^ 1024) / real_of_int 1\<bar>
   \<and> compute_overall_status default_scorer [PStr ''green''] (2 ^ 1024) 1 = Inl OverflowError
   \<and> \<bar>real_of_int 1 / real_of_int 10\<bar> < 2 ^ 1024 - 2 ^ 970
   \<and> compute_overall_status default_scorer [PStr ''green'', PStr ''green''] 1 10 = Inr ''yellow''
   \<and> is_double (real_of_int 1 / real_of_int 4)
   \<and> compute_overall_status default_scorer [PStr ''green''] 1 4 = Inr ''yellow''
   \<and> is_double (real_of_int 0 / real_of_int 10)
   \<and> compute_overall_status default_scorer [PStr ''green''] 0 10 = Inr ''green''"
proof -
  have eighth: "is_double (1/8)"
  proof -
    have "(1/8 :: real) = real_of_int 1 * 2 powi (- 3)" by (simp add: power_int_minus)
    moreover have "\<bar>1::int\<bar> < 2 ^ 53" "- 1074 \<le> (- 3 :: int)" "(- 3 :: int) \<le> 971" by simp_all
    ultimately show ?thesis unfolding is_double_def by blast
  qed
  have quarter: "is_double (real_of_int 1 / real_of_int 4)"
  proof -
    have "real_of_int 1 / real_of_int 4 = real_of_int 1 * 2 powi (- 2)"
      by (simp add: power_int_minus)
    moreover have "\<bar>1::int\<bar> < 2 ^ 53" "- 1074 \<le> (- 2 :: int)" "(- 2 :: int) \<le> 971" by simp_all
    ultimately show ?thesis unfolding is_double_def by blast
  qed
  have zero: "is_double (real_of_int 0 / real_of_int 10)"
  proof -
    have "real_of_int 0 / real_of_int 10 = real_of_int 0 * 2 powi 0" by simp
    moreover have "\<bar>0::int\<bar> < 2 ^ 53" "- 1074 \<le> (0 :: int)" "(0 :: int) \<le> 971" by simp_all
    ultimately show ?thesis unfolding is_double_def by blast
  qed
  have big: "(2::real) ^ 1024 - 2 ^ 970 \<le> \<bar>real_of_int (2 ^ 1024) / real_of_int 1\<bar>" by simp
  have small: "\<bar>real_of_int 1 / real_of_int 10\<bar> < (2::real) ^ 1024 - 2 ^ 970" by simp
  have a: "compute_overall_status default_scorer [] 1 10 = Inr ''red''"
    using compute_overall_status_rounds_the_ratio [of "[]" 10 default_scorer 1]
    by (simp add: spec_overall_def)
  have b: "compute_overall_status default_scorer [PStr ''yellow'', PStr ''green''] 5 0
             = Inr ''yellow''"
    using compute_overall_status_rounds_the_ratio
            [of "[PStr ''yellow'', PStr ''green'']" 0 default_scorer 5]
    by (simp add: spec_overall_def)
  have c: "compute_overall_status default_scorer [PStr ''green''] (2 ^ 1024) 1
             = Inl OverflowError"
    using compute_overall_status_rounds_the_ratio
            [of "[PStr ''green'']" 1 default_scorer "2 ^ 1024"] big
    by simp
  have d: "compute_overall_status default_scorer [PStr ''green'', PStr ''green''] 1 10
             = Inr ''yellow''"
  proof -
    from compute_overall_status_rounds_the_ratio
           [of "[PStr ''green'', PStr ''green'']" 10 default_scorer 1] small
    obtain d where near: "nearest_double (real_of_int 1 / real_of_int 10) d"
      and res: "compute_overall_status default_scorer [PStr ''green'', PStr ''green''] 1 10 =
                  Inr (spec_overall (spec_exceeds d (missing_eval_threshold default_scorer))
                         [PStr ''green'', PStr ''green''])"
      by auto
    from near eighth have "\<bar>real_of_int 1 / real_of_int 10 - d\<bar> \<le> \<bar>real_of_int 1 / real_of_int 10 - 1/8\<bar>"
      unfolding nearest_double_def by blast
    then have "\<bar>1/10 - d\<bar> \<le> 1/40" by simp
    then have "5/100 < d" by linarith
    then have "spec_exceeds d (missing_eval_threshold default_scorer)"
      by (simp add: spec_exceeds_def default_scorer_def)
    with res show ?thesis by (simp add: spec_overall_def)
  qed
  have e: "compute_overall_status default_scorer [PStr ''green''] 1 4 = Inr ''yellow''"
    using compute_overall_status_rounds_the_ratio [of "[PStr ''green'']" 4 default_scorer 1]
      quarter
    by (simp add: spec_compute_overall_status_def spec_overall_def spec_exceeds_def
        default_scorer_def)
  have f: "compute_overall_status default_scorer [PStr ''green''] 0 10 = Inr ''green''"
    using compute_overall_status_rounds_the_ratio [of "[PStr ''green'']" 10 default_scorer 0]
      zero
    by (simp add: spec_compute_overall_status_def spec_overall_def spec_exceeds_def
        default_scorer_def)
  from a b big c small d quarter e zero f show ?thesis by blast
qed

section \<open>The short circuits of the metrics\<close>

text \<open>
  Claim C7, as stated, fails for the two metrics that need a reference: they test the
  reference before the response, so with an empty response and no reference their
  explanation is the one about the missing reference, not \<^verbatim>\<open>Empty response\<close>.
\<close>

theorem correctness_empty_response_no_reference:
  "validate_inputs (PStr ''Q'') (PStr []) PNone = Inr ()
   \<and> correctness_evaluate (\<lambda>args. Inl ''unavailable'') (PStr ''Q'') (PStr []) PNone =
       ([], Inr [(''score'', PFloat (Finite 0)),
                 (''explanation'',
                  PStr ''Cannot evaluate correctness without a reference answer'')])
   \<and> PStr ''Cannot evaluate correctness without a reference answer''
       \<noteq> PStr ''Empty response''"
  by (simp add: correctness_evaluate_def validate_inputs_def strip_def isspace_def)

text \<open>
  Claim C7, amended.  For every valid input whose response is empty (or only
  whitespace), no metric calls its external evaluator.  The relevancy metric returns
  score 0.0 and the toxicity metric returns \<^verbatim>\<open>is_toxic = False\<close> with score 1.0, both with
  the explanation \<^verbatim>\<open>Empty response\<close>.  The correctness and overlap metrics return
  score 0.0 with the explanation \<^verbatim>\<open>Empty response\<close> when a non-empty reference is
  supplied, and score 0.0 with their explanation of the missing reference when the
  reference is absent or empty.
\<close>

theorem empty_response_short_circuit:
  assumes "validate_inputs question (PStr s) reference = Inr ()" and "strip s = []"
  shows "relevancy_evaluate rel_program question (PStr s) reference =
           ([], Inr [(''score'', PFloat (Finite 0)),
                     (''explanation'', PStr ''Empty response'')])
       \<and> toxicity_evaluate tox_program question (PStr s) reference =
           ([], Inr [(''is_toxic'', PBool False),
                     (''explanation'', PStr ''Empty response''),
                     (''toxicity_type'', PStr ''none''),
                     (''score'', PFloat (Finite 1))])
       \<and> (truthy reference \<longrightarrow>
            correctness_evaluate cor_program question (PStr s) reference =
              ([], Inr [(''score'', PFloat (Finite 0)),
                        (''explanation'', PStr ''Empty response'')])
          \<and> rouge_evaluate scorer question (PStr s) reference =
              ([], Inr [(''score'', PFloat (Finite 0)),
                        (''explanation'', PStr ''Empty response'')]))
       \<and> (\<not> truthy reference \<longrightarrow>
            correctness_evaluate cor_program question (PStr s) reference =
              ([], Inr [(''score'', PFloat (Finite 0)),
                        (''explanation'',
                         PStr ''Cannot evaluate correctness without a reference answer'')])
          \<and> rouge_evaluate scorer question (PStr s) reference =
              ([], Inr [(''score'', PFloat (Finite 0)),
                        (''explanation'',
                         PStr ''Cannot calculate ROUGE score without a reference answer'')]))"
  using assms valid_without_reference [OF assms(1)]
  by (simp add: relevancy_evaluate_def toxicity_evaluate_def correctness_evaluate_def
      rouge_evaluate_def not_strip_def)

theorem empty_response_short_circuit_witness:
  "validate_inputs (PStr ''Q'') (PStr []) (PStr ''R'') = Inr () \<and> strip [] = []
   \<and> truthy (PStr ''R'')
   \<and> relevancy_evaluate (\<lambda>args. Inl ''unavailable'') (PStr ''Q'') (PStr []) (PStr ''R'') =
       ([], Inr [(''score'', PFloat (Finite 0)), (''explanation'', PStr ''Empty response'')])
   \<and> toxicity_evaluate (\<lambda>args. Inl ''unavailable'') (PStr ''Q'') (PStr []) (PStr ''R'') =
       ([], Inr [(''is_toxic'', PBool False), (''explanation'', PStr ''Empty response''),
                 (''toxicity_type'', PStr ''none''), (''score'', PFloat (Finite 1))])
   \<and> correctness_evaluate (\<lambda>args. Inl ''unavailable'') (PStr ''Q'') (PStr []) (PStr ''R'') =
       ([], Inr [(''score'', PFloat (Finite 0)), (''explanation'', PStr ''Empty response'')])
   \<and> rouge_evaluate (\<lambda>args. Inl ''unavailable'') (PStr ''Q'') (PStr []) (PStr ''R'') =
       ([], Inr [(''score'', PFloat (Finite 0)), (''explanation'', PStr ''Empty response'')])
   \<and> validate_inputs (PStr ''Q'') (PStr []) PNone = Inr () \<and> \<not> truthy PNone
   \<and> rouge_evaluate (\<lambda>args. Inl ''unavailable'') (PStr ''Q'') (PStr []) PNone =
       ([], Inr [(''score'', PFloat (Finite 0)),
                 (''explanation'',
                  PStr ''Cannot calculate ROUGE score without a reference answer'')])"
  using empty_response_short_circuit
    [of "PStr ''Q''" "[]" "PStr ''R''" "\<lambda>args. Inl ''unavailable''"
        "\<lambda>args. Inl ''unavailable''" "\<lambda>args. Inl ''unavailable''"
        "\<lambda>args. Inl ''unavailable''"]
    empty_response_short_circuit
    [of "PStr ''Q''" "[]" PNone "\<lambda>args. Inl ''unavailable''"
        "\<lambda>args. Inl ''unavailable''" "\<lambda>args. Inl ''unavailable''"
        "\<lambda>args. Inl ''unavailable''"]
  by (simp add: validate_inputs_def strip_def isspace_def)

text \<open>
  Claim C8.  For every valid input without a reference, the correctness and the
  overlap metric return score 0.0 with an explanation that names the missing
  reference, and make no call to the external evaluator or the overlap scorer: the
  list of calls is empty and the result is the same for every collaborator.
\<close>

theorem missing_reference_short_circuit:
  assumes "validate_inputs question response PNone = Inr ()"
  shows "correctness_evaluate program question response PNone =
           ([], Inr [(''score'', PFloat (Finite 0)),
                     (''explanation'',
                      PStr ''Cannot evaluate correctness without a reference answer'')])
       \<and> rouge_evaluate scorer question response PNone =
           ([], Inr [(''score'', PFloat (Finite 0)),
                     (''explanation'',
                      PStr ''Cannot calculate ROUGE score without a reference answer'')])"
  using assms by (simp add: correctness_evaluate_def rouge_evaluate_def)

theorem missing_reference_short_circuit_witness:
  "validate_inputs (PStr ''Q'') (PStr ''R'') PNone = Inr ()
   \<and> correctness_evaluate (\<lambda>args. Inl ''unavailable'') (PStr ''Q'') (PStr ''R'') PNone =
       ([], Inr [(''score'', PFloat (Finite 0)),
                 (''explanation'',
                  PStr ''Cannot evaluate correctness without a reference answer'')])
   \<and> rouge_evaluate (\<lambda>args. Inr [(''score'', PFloat (Finite 1))])
         (PStr ''Q'') (PStr ''R'') PNone =
       ([], Inr [(''score'', PFloat (Finite 0)),
                 (''explanation'',
                  PStr ''Cannot calculate ROUGE score without a reference answer'')])"
  using missing_reference_short_circuit
    [of "PStr ''Q''" "PStr ''R''" "\<lambda>args. Inl ''unavailable''"
        "\<lambda>args. Inr [(''score'', PFloat (Finite 1))]"]
  by (simp add: validate_inputs_def strip_def isspace_def)

text \<open>
  Claim C10.  An empty string as reference passes validation exactly as an absent
  reference does, and the correctness and the overlap metric then behave exactly as
  without a reference: score 0.0, the explanation of the missing reference, and no
  call to the external evaluator.
\<close>

theorem empty_reference_as_absent:
  "validate_inputs question response (PStr []) = validate_inputs question response PNone
   \<and> correctness_evaluate program question response (PStr []) =
       correctness_evaluate program question response PNone
   \<and> rouge_evaluate scorer question response (PStr []) =
       rouge_evaluate scorer question response PNone
   \<and> (validate_inputs question response (PStr []) = Inr () \<longrightarrow>
        correctness_evaluate program question response (PStr []) =
           ([], Inr [(''score'', PFloat (Finite 0)),
                     (''explanation'',
                      PStr ''Cannot evaluate correctness without a reference answer'')])
      \<and> rouge_evaluate scorer question response (PStr []) =
           ([], Inr [(''score'', PFloat (Finite 0)),
                     (''explanation'',
                      PStr ''Cannot calculate ROUGE score without a reference answer'')]))"
  by (simp add: correctness_evaluate_def rouge_evaluate_def validate_inputs_def)

theorem empty_reference_as_absent_witness:
  "validate_inputs (PStr ''Q'') (PStr ''R'') (PStr []) = Inr ()
   \<and> correctness_evaluate (\<lambda>args. Inr [(''score'', PFloat (Finite 1))])
         (PStr ''Q'') (PStr ''R'') (PStr []) =
       ([], Inr [(''score'', PFloat (Finite 0)),
                 (''explanation'',
                  PStr ''Cannot evaluate correctness without a reference answer'')])
   \<and> rouge_evaluate (\<lambda>args. Inr [(''score'', PFloat (Finite 1))])
         (PStr ''Q'') (PStr ''R'') (PStr []) =
       ([], Inr [(''score'', PFloat (Finite 0)),
                 (''explanation'',
                  PStr ''Cannot calculate ROUGE score without a reference answer'')])"
  using empty_reference_as_absent
    [of "PStr ''Q''" "PStr ''R''" "\<lambda>args. Inr [(''score'', PFloat (Finite 1))]"
        "\<lambda>args. Inr [(''score'', PFloat (Finite 1))]"]
  by (auto simp: validate_inputs_def strip_def isspace_def)

section \<open>Failures of a metric in the pipeline\<close>

text \<open>
  Claim C5.  In \<^verbatim>\<open>evaluate_single\<close> an exception of a metric's \<^verbatim>\<open>evaluate\<close> is caught:
  the function is total and returns a row.  The fields of the row are those that the
  metrics without the raising ones would have produced, so a raising metric adds no
  key and the metrics after it are still evaluated; the error list holds, in order,
  the metric's name, a colon and a space, and the message for each raising metric;
  and the row has the field \<^verbatim>\<open>errors\<close> if and only if some metric raised.
\<close>

theorem evaluate_single_isolates_failures:
  "metric_fields metrics q r ref =
     metric_fields (filter (\<lambda>m. \<not> raised m q r ref) metrics) q r ref
   \<and> snd (apply_metrics metrics q r ref ([], [])) =
       map (\<lambda>m. error_entry m q r ref) (filter (\<lambda>m. raised m q r ref) metrics)
   \<and> evaluate_single metrics q r ref =
       (if \<exists>m\<in>set metrics. raised m q r ref
        then metric_fields metrics q r ref @
             [(''errors'', PList (map (\<lambda>m. error_entry m q r ref)
                                    (filter (\<lambda>m. raised m q r ref) metrics)))]
        else metric_fields metrics q r ref)
   \<and> (''errors'' \<in> fst ` set (evaluate_single metrics q r ref)
        \<longleftrightarrow> (\<exists>m\<in>set metrics. raised m q r ref))"
proof -
  let ?errs = "map (\<lambda>m. error_entry m q r ref) (filter (\<lambda>m. raised m q r ref) metrics)"
  have a: "metric_fields metrics q r ref =
     metric_fields (filter (\<lambda>m. \<not> raised m q r ref) metrics) q r ref"
    unfolding metric_fields_def by (rule apply_metrics_results)
  have b: "snd (apply_metrics metrics q r ref ([], [])) = ?errs"
    using apply_metrics_errors [of metrics q r ref "[]" "[]"] by simp
  have ne: "?errs \<noteq> [] \<longleftrightarrow> (\<exists>m\<in>set metrics. raised m q r ref)"
    by (auto simp: filter_empty_conv)
  have split: "apply_metrics metrics q r ref ([], []) = (metric_fields metrics q r ref, ?errs)"
    using b by (simp add: metric_fields_def prod_eq_iff)
  have c: "evaluate_single metrics q r ref =
       (if \<exists>m\<in>set metrics. raised m q r ref
        then metric_fields metrics q r ref @ [(''errors'', PList ?errs)]
        else metric_fields metrics q r ref)"
    unfolding evaluate_single_def split using ne
    by (simp add: setitem_fresh errors_not_in_fields del: map_is_Nil_conv)
  have d: "''errors'' \<in> fst ` set (evaluate_single metrics q r ref)
        \<longleftrightarrow> (\<exists>m\<in>set metrics. raised m q r ref)"
    unfolding c using errors_not_in_fields [of metrics q r ref] by auto
  from a b c d show ?thesis by blast
qed

theorem evaluate_single_isolates_failures_witness:
  "raised (CorrectnessMetric None (\<lambda>args. Inr [(''score'', PFloat (Finite 1))]))
     (PStr ''Q'') (PStr ''R'') (PFloat NaN)
   \<and> evaluate_single
        [CorrectnessMetric None (\<lambda>args. Inr [(''score'', PFloat (Finite 1))]),
         RelevancyMetric None (\<lambda>args. Inr [(''score'', PFloat (Finite (9/10)))])]
        (PStr ''Q'') (PStr ''R'') (PFloat NaN) =
      [(''relevancy_score'', PFloat (Finite (9/10))),
       (''errors'', PList [''correctness: Reference must be a string or None''])]"
  using evaluate_single_isolates_failures
    [of "[CorrectnessMetric None (\<lambda>args. Inr [(''score'', PFloat (Finite 1))]),
          RelevancyMetric None (\<lambda>args. Inr [(''score'', PFloat (Finite (9/10)))])]"
        "PStr ''Q''" "PStr ''R''" "PFloat NaN"]
  by (simp add: raised_def error_entry_def metric_fields_def CorrectnessMetric_def
      RelevancyMetric_def default_name_def correctness_evaluate_def relevancy_evaluate_def
      validate_inputs_def not_strip_def strip_def isspace_def)

text \<open>
  Claim C4, as stated, fails: when the evaluation of a metric fails with an error that
  is recorded in the row's error list, the row gets no field of that metric, and so no
  default score.  A reference cell that is NaN (an empty cell of the input table) makes
  the correctness metric raise in its validation.
\<close>

theorem recorded_failure_leaves_no_score:
  "evaluate_single [CorrectnessMetric None (\<lambda>args. Inr [(''score'', PFloat (Finite 1))])]
     (PStr ''Q'') (PStr ''R'') (PFloat NaN) =
     [(''errors'', PList [''correctness: Reference must be a string or None''])]
   \<and> map_of (evaluate_single
               [CorrectnessMetric None (\<lambda>args. Inr [(''score'', PFloat (Finite 1))])]
               (PStr ''Q'') (PStr ''R'') (PFloat NaN)) ''correctness_score'' = None"
  by (simp add: evaluate_single_def CorrectnessMetric_def default_name_def
      correctness_evaluate_def validate_inputs_def strip_def isspace_def)

text \<open>
  Claim C4, amended.  A metric whose evaluation fails with an error recorded in the
  row's error list contributes no field: every field of the row other than \<^verbatim>\<open>errors\<close>
  is a key returned by a metric that did not raise.  The default-safe values (score
  0.0 for the quality metrics; \<^verbatim>\<open>is_toxic = False\<close> with score 1.0 for toxicity) are
  what the four metrics themselves return, on valid input, when their external
  evaluator raises; the metric then returns normally and nothing is recorded.
\<close>

theorem recorded_failure_contributes_nothing:
  "(\<forall>k \<in> fst ` set (evaluate_single metrics q r ref).
      k = ''errors'' \<or>
      (\<exists>m \<in> set metrics. \<exists>d key.
         evaluate m q r ref = Inr d \<and> key \<in> fst ` set d \<and> k = name m @ ''_'' @ key))
   \<and> (validate_inputs q (PStr s) PNone = Inr () \<and> strip s \<noteq> [] \<and>
        rel_program [q, PStr s] = Inl e \<longrightarrow>
        relevancy_evaluate rel_program q (PStr s) ref =
          ([[q, PStr s]],
           Inr [(''score'', PFloat (Finite 0)),
                (''explanation'', PStr (''Error evaluating relevancy: '' @ e))]))
   \<and> (validate_inputs q (PStr s) ref = Inr () \<and> truthy ref \<and> strip s \<noteq> [] \<and>
        cor_program [q, PStr s, ref] = Inl e \<longrightarrow>
        correctness_evaluate cor_program q (PStr s) ref =
          ([[q, PStr s, ref]],
           Inr [(''score'', PFloat (Finite 0)),
                (''explanation'', PStr (''Error evaluating correctness: '' @ e))]))
   \<and> (validate_inputs q (PStr s) ref = Inr () \<and> truthy ref \<and> strip s \<noteq> [] \<and>
        scorer [PStr s, ref] = Inl e \<longrightarrow>
        rouge_evaluate scorer q (PStr s) ref =
          ([[PStr s, ref]],
           Inr [(''score'', PFloat (Finite 0)),
                (''explanation'', PStr (''Error calculating ROUGE score: '' @ e))]))
   \<and> (validate_inputs q (PStr s) PNone = Inr () \<and> strip s \<noteq> [] \<and>
        tox_program [PStr s] = Inl e \<longrightarrow>
        toxicity_evaluate tox_program q (PStr s) ref =
          ([[PStr s]],
           Inr [(''is_toxic'', PBool False),
                (''explanation'', PStr (''Error evaluating toxicity: '' @ e)),
                (''toxicity_type'', PStr ''error''),
                (''score'', PFloat (Finite 1))]))"
proof -
  have keys: "\<forall>k \<in> fst ` set (evaluate_single metrics q r ref).
      k = ''errors'' \<or>
      (\<exists>m \<in> set metrics. \<exists>d key.
         evaluate m q r ref = Inr d \<and> key \<in> fst ` set d \<and> k = name m @ ''_'' @ key)"
  proof
    fix k
    assume k: "k \<in> fst ` set (evaluate_single metrics q r ref)"
    obtain results errors where
      ap: "apply_metrics metrics q r ref ([], []) = (results, errors)"
      by (cases "apply_metrics metrics q r ref ([], [])")
    from k ap have "k = ''errors'' \<or> k \<in> fst ` set results"
      by (auto simp: evaluate_single_def setitem_key_set split: if_splits)
    moreover have "fst ` set results =
        {name m @ ''_'' @ key | m d key.
           m \<in> set metrics \<and> evaluate m q r ref = Inr d \<and> key \<in> fst ` set d}"
      using apply_metrics_keys [of metrics q r ref "[]" "[]"] ap by simp
    ultimately show "k = ''errors'' \<or>
      (\<exists>m \<in> set metrics. \<exists>d key.
         evaluate m q r ref = Inr d \<and> key \<in> fst ` set d \<and> k = name m @ ''_'' @ key)"
      by blast
  qed
  have rel: "validate_inputs q (PStr s) PNone = Inr () \<and> strip s \<noteq> [] \<and>
        rel_program [q, PStr s] = Inl e \<longrightarrow>
        relevancy_evaluate rel_program q (PStr s) ref =
          ([[q, PStr s]],
           Inr [(''score'', PFloat (Finite 0)),
                (''explanation'', PStr (''Error evaluating relevancy: '' @ e))])"
    by (simp add: relevancy_evaluate_def not_strip_def)
  have cor: "validate_inputs q (PStr s) ref = Inr () \<and> truthy ref \<and> strip s \<noteq> [] \<and>
        cor_program [q, PStr s, ref] = Inl e \<longrightarrow>
        correctness_evaluate cor_program q (PStr s) ref =
          ([[q, PStr s, ref]],
           Inr [(''score'', PFloat (Finite 0)),
                (''explanation'', PStr (''Error evaluating correctness: '' @ e))])"
    by (simp add: correctness_evaluate_def not_strip_def)
  have rou: "validate_inputs q (PStr s) ref = Inr () \<and> truthy ref \<and> strip s \<noteq> [] \<and>
        scorer [PStr s, ref] = Inl e \<longrightarrow>
        rouge_evaluate scorer q (PStr s) ref =
          ([[PStr s, ref]],
           Inr [(''score'', PFloat (Finite 0)),
                (''explanation'', PStr (''Error calculating ROUGE score: '' @ e))])"
    by (simp add: rouge_evaluate_def not_strip_def)
  have tox: "validate_inputs q (PStr s) PNone = Inr () \<and> strip s \<noteq> [] \<and>
        tox_program [PStr s] = Inl e \<longrightarrow>
        toxicity_evaluate tox_program q (PStr s) ref =
          ([[PStr s]],
           Inr [(''is_toxic'', PBool False),
                (''explanation'', PStr (''Error evaluating toxicity: '' @ e)),
                (''toxicity_type'', PStr ''error''),
                (''score'', PFloat (Finite 1))])"
    by (simp add: toxicity_evaluate_def not_strip_def toxicity_error_result_def)
  from keys rel cor rou tox show ?thesis by blast
qed

theorem recorded_failure_contributes_nothing_witness:
  "evaluate_single
     [CorrectnessMetric None (\<lambda>args. Inl ''timeout''),
      RelevancyMetric None (\<lambda>args. Inl ''timeout'')]
     (PStr ''Q'') (PStr ''R'') (PFloat NaN) =
     [(''relevancy_score'', PFloat (Finite 0)),
      (''relevancy_explanation'', PStr ''Error evaluating relevancy: timeout''),
      (''errors'', PList [''correctness: Reference must be a string or None''])]
   \<and> validate_inputs (PStr ''Q'') (PStr ''R'') (PStr ''A'') = Inr ()
   \<and> truthy (PStr ''A'') \<and> strip ''R'' \<noteq> []
   \<and> relevancy_evaluate (\<lambda>args. Inl ''timeout'') (PStr ''Q'') (PStr ''R'') (PStr ''A'') =
       ([[PStr ''Q'', PStr ''R'']],
        Inr [(''score'', PFloat (Finite 0)),
             (''explanation'', PStr ''Error evaluating relevancy: timeout'')])
   \<and> correctness_evaluate (\<lambda>args. Inl ''timeout'') (PStr ''Q'') (PStr ''R'') (PStr ''A'') =
       ([[PStr ''Q'', PStr ''R'', PStr ''A'']],
        Inr [(''score'', PFloat (Finite 0)),
             (''explanation'', PStr ''Error evaluating correctness: timeout'')])
   \<and> rouge_evaluate (\<lambda>args. Inl ''timeout'') (PStr ''Q'') (PStr ''R'') (PStr ''A'') =
       ([[PStr ''R'', PStr ''A'']],
        Inr [(''score'', PFloat (Finite 0)),
             (''explanation'', PStr ''Error calculating ROUGE score: timeout'')])
   \<and> toxicity_evaluate (\<lambda>args. Inl ''timeout'') (PStr ''Q'') (PStr ''R'') (PStr ''A'') =
       ([[PStr ''R'']],
        Inr [(''is_toxic'', PBool False),
             (''explanation'', PStr ''Error evaluating toxicity: timeout''),
             (''toxicity_type'', PStr ''error''),
             (''score'', PFloat (Finite 1))])"
  using recorded_failure_contributes_nothing
    [of "[CorrectnessMetric None (\<lambda>args. Inl ''timeout''),
          RelevancyMetric None (\<lambda>args. Inl ''timeout'')]"
        "PStr ''Q''" "PStr ''R''" "PFloat NaN" "''R''" "\<lambda>args. Inl ''timeout''" "''timeout''"
        "\<lambda>args. Inl ''timeout''" "\<lambda>args. Inl ''timeout''" "\<lambda>args. Inl ''timeout''"]
    recorded_failure_contributes_nothing
    [of "[]" "PStr ''Q''" "PStr ''R''" "PStr ''A''" "''R''" "\<lambda>args. Inl ''timeout''" "''timeout''"
        "\<lambda>args. Inl ''timeout''" "\<lambda>args. Inl ''timeout''" "\<lambda>args. Inl ''timeout''"]
  by (simp add: evaluate_single_def CorrectnessMetric_def RelevancyMetric_def
      default_name_def correctness_evaluate_def relevancy_evaluate_def
      validate_inputs_def not_strip_def strip_def isspace_def)

section \<open>Idempotence of score_results\<close>

text \<open>
  Claim C6.  Scoring a table that \<^verbatim>\<open>score_results\<close> has produced succeeds again and
  gives a table with the same columns in the same order and the same cell in every
  column of every row, in particular the same per-metric status columns and the same
  \<^verbatim>\<open>overall_status\<close>; with unique column labels the second result is the first
  table itself.  On the second pass \<^verbatim>\<open>compute_row_status\<close> does read the
  \<^verbatim>\<open>overall_status\<close> written by the first pass, since that label ends in \<^verbatim>\<open>_status\<close>.
\<close>

theorem score_results_idempotent:
  assumes "score_results self results_df = Inr scored"
  shows "\<exists>again. score_results self scored = Inr again \<and> length again = length scored \<and>
           (\<forall>i < length scored.
              map fst (again ! i) = map fst (scored ! i) \<and>
              (\<forall>col. map_of (again ! i) col = map_of (scored ! i) col)) \<and>
           ((\<forall>r \<in> set results_df. distinct (map fst r)) \<longrightarrow> again = scored)"
proof -
  from assms have one: "list_all2 (\<lambda>r r3. score_row self r = Inr r3) results_df scored"
    by (simp add: score_results_def map_raising_Inr)
  from score_rows_stable [OF one] obtain again where
    two: "list_all2 (\<lambda>r3 r4. score_row self r3 = Inr r4 \<and> map fst r4 = map fst r3 \<and>
                              map_of r4 = map_of r3) scored again" ..
  then have run: "score_results self scored = Inr again"
    by (simp add: score_results_def map_raising_Inr list_all2_conv_all_nth)
  from two have len: "length again = length scored"
    by (simp add: list_all2_lengthD)
  from two have same: "\<forall>i < length scored.
              map fst (again ! i) = map fst (scored ! i) \<and>
              (\<forall>col. map_of (again ! i) col = map_of (scored ! i) col)"
    by (simp add: list_all2_conv_all_nth)
  have "again = scored" if d: "\<forall>r \<in> set results_df. distinct (map fst r)"
  proof (rule nth_equalityI [OF len])
    fix i
    assume i: "i < length again"
    with len one have ri: "i < length results_df"
      and s: "score_row self (results_df ! i) = Inr (scored ! i)"
      by (simp_all add: list_all2_conv_all_nth)
    from ri d have "distinct (map fst (results_df ! i))" by simp
    with s have "distinct (map fst (scored ! i))" by (rule distinct_score_row)
    moreover from same i len have "map fst (again ! i) = map fst (scored ! i)"
      and "map_of (again ! i) = map_of (scored ! i)" by auto
    ultimately show "again ! i = scored ! i" by (rule row_eqI)
  qed
  with run len same show ?thesis by blast
qed

theorem score_results_idempotent_witness:
  "score_results default_scorer
     [[(''relevancy_score'', PFloat (Finite (1/2))), (''toxicity_is_toxic'', PBool False)],
      [(''relevancy_score'', PFloat (Finite (9/10))), (''toxicity_is_toxic'', PBool True)]] =
   Inr [[(''relevancy_score'', PFloat (Finite (1/2))), (''toxicity_is_toxic'', PBool False),
         (''relevancy_status'', PStr ''yellow''), (''toxicity_status'', PStr ''green''),
         (''overall_status'', PStr ''yellow'')],
        [(''relevancy_score'', PFloat (Finite (9/10))), (''toxicity_is_toxic'', PBool True),
         (''relevancy_status'', PStr ''green''), (''toxicity_status'', PStr ''red''),
         (''overall_status'', PStr ''red'')]]
   \<and> score_results default_scorer
     [[(''relevancy_score'', PFloat (Finite (1/2))), (''toxicity_is_toxic'', PBool False),
       (''relevancy_status'', PStr ''yellow''), (''toxicity_status'', PStr ''green''),
       (''overall_status'', PStr ''yellow'')],
      [(''relevancy_score'', PFloat (Finite (9/10))), (''toxicity_is_toxic'', PBool True),
       (''relevancy_status'', PStr ''green''), (''toxicity_status'', PStr ''red''),
       (''overall_status'', PStr ''red'')]] =
   Inr [[(''relevancy_score'', PFloat (Finite (1/2))), (''toxicity_is_toxic'', PBool False),
         (''relevancy_status'', PStr ''yellow''), (''toxicity_status'', PStr ''green''),
         (''overall_status'', PStr ''yellow'')],
        [(''relevancy_score'', PFloat (Finite (9/10))), (''toxicity_is_toxic'', PBool True),
         (''relevancy_status'', PStr ''green''), (''toxicity_status'', PStr ''red''),
         (''overall_status'', PStr ''red'')]]"
proof -
  let ?t0 = "[[(''relevancy_score'', PFloat (Finite (1/2))), (''toxicity_is_toxic'', PBool False)],
      [(''relevancy_score'', PFloat (Finite (9/10))), (''toxicity_is_toxic'', PBool True)]]"
  let ?t1 = "[[(''relevancy_score'', PFloat (Finite (1/2))), (''toxicity_is_toxic'', PBool False),
         (''relevancy_status'', PStr ''yellow''), (''toxicity_status'', PStr ''green''),
         (''overall_status'', PStr ''yellow'')],
        [(''relevancy_score'', PFloat (Finite (9/10))), (''toxicity_is_toxic'', PBool True),
         (''relevancy_status'', PStr ''green''), (''toxicity_status'', PStr ''red''),
         (''overall_status'', PStr ''red'')]]"
  have first: "score_results default_scorer ?t0 = Inr ?t1"
    by (simp add: score_results_def score_row_def score_column_def getitem_def
        score_to_status_def py_lt_def toxicity_column_def compute_row_status_def
        compute_overall_status_def endswith_def default_scorer_def)
  have labels: "\<forall>r \<in> set ?t0. distinct (map fst r)"
    by simp
  from score_results_idempotent [OF first] labels
  have "score_results default_scorer ?t1 = Inr ?t1"
    by blast
  with first show ?thesis by simp
qed

section \<open>Missing scores\<close>

text \<open>
  Claim C9, as stated for every metric, fails for the toxicity metric: a
  \<^verbatim>\<open>toxicity_score\<close> cell that is NaN is not at least 1.0, so \<^verbatim>\<open>score_to_status\<close> gives
  \<^verbatim>\<open>red\<close>; and the NaN in \<^verbatim>\<open>toxicity_is_toxic\<close> of such a row is true as a condition, so
  the status derived from that field and the overall status are \<^verbatim>\<open>red\<close> as well.
\<close>

theorem nan_toxicity_score_is_red:
  "score_results default_scorer
     [[(''toxicity_score'', PFloat NaN), (''toxicity_is_toxic'', PFloat NaN)],
      [(''toxicity_score'', PFloat (Finite 1)), (''toxicity_is_toxic'', PBool False)]] =
   Inr [[(''toxicity_score'', PFloat NaN), (''toxicity_is_toxic'', PFloat NaN),
         (''toxicity_status'', PStr ''red''), (''overall_status'', PStr ''red'')],
        [(''toxicity_score'', PFloat (Finite 1)), (''toxicity_is_toxic'', PBool False),
         (''toxicity_status'', PStr ''green''), (''overall_status'', PStr ''green'')]]
   \<and> score_to_status default_scorer (PFloat NaN) ''toxicity'' = Inr ''red''"
  by (simp add: score_results_def score_row_def score_column_def getitem_def
        score_to_status_def py_ge_def float_ge_def float_le_def toxicity_column_def
        compute_row_status_def compute_overall_status_def endswith_def default_scorer_def)

text \<open>
  Claim C9, amended.  In \<^verbatim>\<open>score_results\<close>, a row whose cell under a label ending in
  \<^verbatim>\<open>_score\<close> is NaN gets the status \<^verbatim>\<open>green\<close> for that metric, because NaN is below
  neither threshold in \<^verbatim>\<open>score_to_status\<close>, whenever the metric is not \<^verbatim>\<open>toxicity\<close>, its
  status column is not \<^verbatim>\<open>overall_status\<close>, and no other score column of the table names
  the same metric.
\<close>

theorem nan_score_cell_is_green:
  assumes "score_results self results_df = Inr scored"
    and "i < length results_df"
    and "map_of (results_df ! i) col = Some (PFloat NaN)"
    and "endswith col ''_score''"
    and "metric_name = replace col ''_score'' []"
    and "metric_name \<noteq> ''toxicity''" and "metric_name \<noteq> ''overall''"
    and "\<forall>c \<in> fst ` set (results_df ! i).
           endswith c ''_score'' \<and> replace c ''_score'' [] = metric_name \<longrightarrow> c = col"
  shows "score_to_status self (PFloat NaN) metric_name = Inr ''green'' \<and>
         map_of (scored ! i) (metric_name @ ''_status'') = Some (PStr ''green'')"
proof -
  let ?r = "results_df ! i"
  let ?W = "writes self (map_of ?r) (map fst ?r)"
  let ?t = "metric_name @ ''_status''"
  have green: "score_to_status self (PFloat NaN) metric_name = Inr ''green''"
    using assms(6)
    by (simp add: score_to_status_def py_lt_def split: prod.splits)
  from assms(1,2) have row: "score_row self ?r = Inr (scored ! i)"
    by (simp add: score_results_def map_raising_Inr list_all2_conv_all_nth)
  from assms(3) have colin: "col \<in> set (map fst ?r)"
    by (metis list.set_map map_of_eq_None_iff option.distinct(1))
  have "?W (replace col ''_score'' [] @ ''_status'') \<noteq> None"
    using colin assms(4) assms(3) green [unfolded assms(5)]
    by (rule writes_defined [where m = "map_of ?r"])
  then obtain v where v: "?W ?t = Some v"
    unfolding assms(5) by blast
  from writes_source [OF v] obtain c x s where
    c: "c \<in> set (map fst ?r)" "endswith c ''_score''"
       "?t = replace c ''_score'' [] @ ''_status''"
       "map_of ?r c = Some x" "score_to_status self x (replace c ''_score'' []) = Inr s"
       "v = PStr s"
    by blast
  from c(3) have "replace c ''_score'' [] = metric_name" by simp
  with c(1,2) assms(8) have "c = col" by auto
  with c(4,5,6) assms(3,5) green have "v = PStr ''green''" by simp
  moreover have "?t \<noteq> ''overall_status''" "?t \<noteq> ''toxicity_status''"
    using assms(6,7) by auto
  ultimately show ?thesis
    using score_row_map_of [OF row, of ?t] v green by (simp add: map_add_def)
qed

theorem nan_score_cell_is_green_witness:
  "score_results default_scorer
     [[(''relevancy_score'', PFloat NaN), (''rouge_score'', PFloat (Finite (9/10)))],
      [(''relevancy_score'', PFloat (Finite (1/10))), (''rouge_score'', PFloat (Finite (9/10)))]] =
   Inr [[(''relevancy_score'', PFloat NaN), (''rouge_score'', PFloat (Finite (9/10))),
         (''relevancy_status'', PStr ''green''), (''rouge_status'', PStr ''green''),
         (''overall_status'', PStr ''green'')],
        [(''relevancy_score'', PFloat (Finite (1/10))), (''rouge_score'', PFloat (Finite (9/10))),
         (''relevancy_status'', PStr ''red''), (''rouge_status'', PStr ''green''),
         (''overall_status'', PStr ''red'')]]
   \<and> map_of ([[(''relevancy_score'', PFloat NaN), (''rouge_score'', PFloat (Finite (9/10))),
         (''relevancy_status'', PStr ''green''), (''rouge_status'', PStr ''green''),
         (''overall_status'', PStr ''green'')],
        [(''relevancy_score'', PFloat (Finite (1/10))), (''rouge_score'', PFloat (Finite (9/10))),
         (''relevancy_status'', PStr ''red''), (''rouge_status'', PStr ''green''),
         (''overall_status'', PStr ''red'')]] ! 0) ''relevancy_status'' = Some (PStr ''green'')"
proof -
  let ?t0 = "[[(''relevancy_score'', PFloat NaN), (''rouge_score'', PFloat (Finite (9/10)))],
      [(''relevancy_score'', PFloat (Finite (1/10))), (''rouge_score'', PFloat (Finite (9/10)))]]"
  let ?t1 = "[[(''relevancy_score'', PFloat NaN), (''rouge_score'', PFloat (Finite (9/10))),
         (''relevancy_status'', PStr ''green''), (''rouge_status'', PStr ''green''),
         (''overall_status'', PStr ''green'')],
        [(''relevancy_score'', PFloat (Finite (1/10))), (''rouge_score'', PFloat (Finite (9/10))),
         (''relevancy_status'', PStr ''red''), (''rouge_status'', PStr ''green''),
         (''overall_status'', PStr ''red'')]]"
  have run: "score_results default_scorer ?t0 = Inr ?t1"
    by (simp add: score_results_def score_row_def score_column_def getitem_def
        score_to_status_def py_lt_def toxicity_column_def compute_row_status_def
        compute_overall_status_def endswith_def default_scorer_def)
  have "map_of (?t1 ! 0) (''relevancy'' @ ''_status'') = Some (PStr ''green'')"
    using nan_score_cell_is_green [OF run, of 0 "''relevancy_score''" "''relevancy''"]
    by (simp add: endswith_def)
  with run show ?thesis by simp
qed

end
